theory Spec2Isabelle
  imports Main "HOL-Library.Word"
begin

unbundle bit_operations_syntax

section \<open>Data model\<close>

text \<open>
  The wire types of \<^verbatim>\<open>src/types/block.types.ts\<close>. The schema takes every number as
  \<^verbatim>\<open>z.number()\<close>, a double. A number that is an integer is modelled by that integer, of
  type \<^typ>\<open>int\<close>; fractions are outside the model. The fields \<^verbatim>\<open>id\<close> of a transaction and
  of a block are called \<open>tx_id\<close> and \<open>block_id\<close>, the fields of an output \<open>out_address\<close>
  and \<open>out_value\<close>, since the plain names are taken.
\<close>

record Output =
  out_address :: string
  out_value :: int

record Input =
  txId :: string
  index :: int

record Transaction =
  tx_id :: string
  inputs :: "Input list"
  outputs :: "Output list"

record Block =
  block_id :: string
  height :: int
  transactions :: "Transaction list"

text \<open>
  A row of the table \<^verbatim>\<open>utxos\<close> (\<^verbatim>\<open>src/db/schema.ts\<close>), and also the argument of \<^verbatim>\<open>insert\<close>
  (\<^verbatim>\<open>NewUTXO\<close>). The column \<^verbatim>\<open>value\<close> is the field \<open>amount\<close>. The serial \<^verbatim>\<open>id\<close> and the two
  timestamps \<^verbatim>\<open>spent_at\<close> and \<^verbatim>\<open>created_at\<close> are written by the store and read by no service;
  they are left out of the row, so that two tables are equal when they agree on every
  other column, row by row. \<^verbatim>\<open>spent_txid\<close> is nullable.
\<close>

record UTXO =
  txid :: string
  vout :: int
  address :: string
  amount :: int
  scriptPubkey :: string
  blockHeight :: int
  spent :: bool
  spentTxid :: "string option"

text \<open>
  The error classes of \<^verbatim>\<open>src/errors.ts\<close>. The first argument of every constructor is
  the field \<^verbatim>\<open>statusCode\<close>. \<open>InvalidBlockHeightError\<close> carries the optional fields
  \<^verbatim>\<open>currentHeight\<close> and \<^verbatim>\<open>height\<close>, \<open>InvalidRollbackHeightError\<close> the optional fields
  \<^verbatim>\<open>targetHeight\<close> and \<^verbatim>\<open>currentHeight\<close>, \<open>NoBlocksToRollbackError\<close> the fields
  \<^verbatim>\<open>targetHeight\<close> and \<^verbatim>\<open>currentHeight\<close>.
\<close>

datatype error =
    InvalidBlockHeightError int "int option" "int option"
  | InvalidInputOutputSumError int
  | InvalidBlockIdError int
  | MutexTimeoutError int
  | DatabaseError int
  | AddressNotFoundError int
  | UTXONotFoundError int
  | InvalidRollbackHeightError int "int option" "int option"
  | NoBlocksToRollbackError int int int

text \<open>
  \<^verbatim>\<open>getErrorStatusCode\<close> returns the field \<^verbatim>\<open>statusCode\<close>, which every error class has; its
  table by name is for a value without that field.
\<close>

fun getErrorStatusCode :: "error \<Rightarrow> int" where
  "getErrorStatusCode (InvalidBlockHeightError c _ _) = c"
| "getErrorStatusCode (InvalidInputOutputSumError c) = c"
| "getErrorStatusCode (InvalidBlockIdError c) = c"
| "getErrorStatusCode (MutexTimeoutError c) = c"
| "getErrorStatusCode (DatabaseError c) = c"
| "getErrorStatusCode (AddressNotFoundError c) = c"
| "getErrorStatusCode (UTXONotFoundError c) = c"
| "getErrorStatusCode (InvalidRollbackHeightError c _ _) = c"
| "getErrorStatusCode (NoBlocksToRollbackError c _ _) = c"

section \<open>The repository interface\<close>

text \<open>
  \<^verbatim>\<open>IUTXORepository\<close> (\<^verbatim>\<open>src/repositories/utxo.repository.ts\<close>): the services receive
  the store by injection, so they are parameterised by a record of its operations over
  a store state \<open>'s\<close>. A query returns \<open>Inl\<close> an error or \<open>Inr\<close> its rows; a statement
  returns \<open>Inl\<close> an error, the store being as before, or \<open>Inr\<close> the store after it.
\<close>

record 's IUTXORepository =
  getBalanceByAddress :: "string \<Rightarrow> 's \<Rightarrow> error + int"
  findByTxIdsAndVouts :: "(string \<times> int) list \<Rightarrow> 's \<Rightarrow> error + UTXO list"
  insert_utxo :: "UTXO \<Rightarrow> 's \<Rightarrow> error + 's"
  markAsSpent :: "string \<Rightarrow> int \<Rightarrow> string \<Rightarrow> 's \<Rightarrow> error + 's"
  getMaxBlockHeight :: "'s \<Rightarrow> error + int"
  findUTXOsByBlockHeight :: "int \<Rightarrow> 's \<Rightarrow> error + UTXO list"
  unmarkAsSpent :: "string list \<Rightarrow> 's \<Rightarrow> error + 's"
  deleteUTXOsByBlockHeight :: "int \<Rightarrow> 's \<Rightarrow> error + 's"

section \<open>Strings of numbers\<close>

text \<open>
  The template literals \<^verbatim>\<open>`${block.height}${txIds}`\<close> and \<^verbatim>\<open>`${txid}:${vout}`\<close> print
  an integer in base 10, with a leading minus sign when it is negative. \<open>decimalString\<close>
  prints every digit, as JavaScript does up to \<open>2 ^ 53\<close> in magnitude. The height reaches
  its template after the height check only, as one more than a \<^verbatim>\<open>block_height\<close> of the
  table; the key of an input is compared with keys of rows, whose \<^verbatim>\<open>vout\<close> has 32 bits.
\<close>

definition digitChar :: "nat \<Rightarrow> char" where
  "digitChar d = ''0123456789'' ! d"

function digits :: "nat \<Rightarrow> string" where
  "digits n = (if n < 10 then [digitChar n] else digits (n div 10) @ [digitChar (n mod 10)])"
  by pat_completeness auto
termination
  by (relation "measure id") auto

declare digits.simps [simp del]

definition decimalString :: "int \<Rightarrow> string" where
  "decimalString i = (if i < 0 then CHR ''-'' # digits (nat (- i)) else digits (nat i))"

section \<open>JavaScript numbers\<close>

text \<open>
  \<^verbatim>\<open>sum + out.value\<close> and \<^verbatim>\<open>inputSum += Number(utxo.value)\<close> add doubles. The sum of two
  doubles that are integers is the double nearest to their exact sum, again an integer,
  or an infinity. \<open>nearestDouble\<close> rounds an integer to 53 significant bits, a tie going
  to the even significand; \<open>roundToDouble\<close> adds the overflow to an infinity, which
  happens from \<open>2 ^ 1024 - 2 ^ 970\<close> on. A running sum that starts at 0 and takes finite
  numbers is finite or an infinity, never \<^verbatim>\<open>NaN\<close>; once infinite it stays so.
\<close>

datatype number = Finite int | PlusInfinity | MinusInfinity

function bitLength :: "nat \<Rightarrow> nat" where
  "bitLength n = (if n = 0 then 0 else Suc (bitLength (n div 2)))"
  by pat_completeness auto
termination
  by (relation "measure id") auto

declare bitLength.simps [simp del]

definition nearestDouble :: "int \<Rightarrow> int" where
  "nearestDouble x =
     (let a = nat \<bar>x\<bar>; n = bitLength a in
      if n \<le> 53 then x
      else let e = n - 53; q = a div 2 ^ e; r = a mod 2 ^ e; half = 2 ^ (e - 1);
               q' = (if half < r \<or> (r = half \<and> odd q) then q + 1 else q)
           in sgn x * int (q' * 2 ^ e))"

definition roundToDouble :: "int \<Rightarrow> number" where
  "roundToDouble x =
     (let d = nearestDouble x in
      if 2 ^ 1024 \<le> d then PlusInfinity
      else if d \<le> - (2 ^ 1024) then MinusInfinity
      else Finite d)"

fun jsAdd :: "number \<Rightarrow> int \<Rightarrow> number" where
  "jsAdd (Finite a) b = roundToDouble (a + b)"
| "jsAdd PlusInfinity b = PlusInfinity"
| "jsAdd MinusInfinity b = MinusInfinity"

text \<open>
  The driver \<^verbatim>\<open>pg\<close> sends a number to the database as \<^verbatim>\<open>val.toString()\<close>. For an integer
  below \<open>10 ^ 21\<close> in magnitude that is the shortest string of digits, filled with zeros,
  that reads back as the same double, and of two such strings the one nearest to the
  number; \<open>printedInteger\<close> is the integer it denotes. Below \<open>2 ^ 53\<close> it is the number
  itself. From \<open>10 ^ 21\<close> on the string has an exponent, which no integer column takes,
  as none takes the digits printed here. \<open>shortestFrom x p\<close> tries the multiples of \<open>p\<close> next to \<open>x\<close>, then those of
  \<open>p div 10\<close>, and so on.
\<close>

function shortestFrom :: "nat \<Rightarrow> nat \<Rightarrow> nat" where
  "shortestFrom x p =
     (if p \<le> 1 then x
      else let lo = (x div p) * p; hi = lo + p;
               okLo = (nearestDouble (int lo) = int x);
               okHi = (nearestDouble (int hi) = int x)
           in if okLo \<and> (\<not> okHi \<or> x - lo \<le> hi - x) then lo
              else if okHi then hi
              else shortestFrom x (p div 10))"
  by pat_completeness auto
termination
  by (relation "measure snd") auto

declare shortestFrom.simps [simp del]

definition printedInteger :: "int \<Rightarrow> int" where
  "printedInteger v =
     (let d = nearestDouble v; a = nat \<bar>d\<bar>
      in sgn d * int (shortestFrom a (10 ^ (length (digits a) - 1))))"

section \<open>SHA-256\<close>

text \<open>
  \<^verbatim>\<open>createHash("sha256").update(hashInput).digest("hex")\<close> of Node's \<^verbatim>\<open>crypto\<close>: the
  string is encoded in UTF-8, hashed as FIPS 180-4 prescribes, and the 32 bytes of the
  digest are printed as 64 lowercase hexadecimal digits. A \<^typ>\<open>char\<close> stands for a code
  point below 256, so a character from 128 on is encoded in two bytes.
\<close>

definition utf8 :: "string \<Rightarrow> 8 word list" where
  "utf8 s = concat (map (\<lambda>c. let n = (of_char c :: nat) in
       if n < 128 then [of_nat n] else [of_nat (192 + n div 64), of_nat (128 + n mod 64)]) s)"

text \<open>
  The round constants and the initial hash value of FIPS 180-4 (sections 4.2.2 and
  5.3.3), written in decimal.
\<close>

definition K256 :: "32 word list" where
  "K256 = [
   1116352408, 1899447441, 3049323471, 3921009573, 961987163, 1508970993, 2453635748, 2870763221,
   3624381080, 310598401, 607225278, 1426881987, 1925078388, 2162078206, 2614888103, 3248222580,
   3835390401, 4022224774, 264347078, 604807628, 770255983, 1249150122, 1555081692, 1996064986,
   2554220882, 2821834349, 2952996808, 3210313671, 3336571891, 3584528711, 113926993, 338241895,
   666307205, 773529912, 1294757372, 1396182291, 1695183700, 1986661051, 2177026350, 2456956037,
   2730485921, 2820302411, 3259730800, 3345764771, 3516065817, 3600352804, 4094571909, 275423344,
   430227734, 506948616, 659060556, 883997877, 958139571, 1322822218, 1537002063, 1747873779,
   1955562222, 2024104815, 2227730452, 2361852424, 2428436474, 2756734187, 3204031479, 3329325298]"

definition H256 :: "32 word list" where
  "H256 = [1779033703, 3144134277, 1013904242, 2773480762, 1359893119, 2600822924, 528734635, 1541459225]"

definition rotr :: "nat \<Rightarrow> 32 word \<Rightarrow> 32 word" where
  "rotr n x = drop_bit n x OR push_bit (32 - n) x"

definition ssig0 :: "32 word \<Rightarrow> 32 word" where
  "ssig0 x = rotr 7 x XOR rotr 18 x XOR drop_bit 3 x"
definition ssig1 :: "32 word \<Rightarrow> 32 word" where
  "ssig1 x = rotr 17 x XOR rotr 19 x XOR drop_bit 10 x"
definition bsig0 :: "32 word \<Rightarrow> 32 word" where
  "bsig0 x = rotr 2 x XOR rotr 13 x XOR rotr 22 x"
definition bsig1 :: "32 word \<Rightarrow> 32 word" where
  "bsig1 x = rotr 6 x XOR rotr 11 x XOR rotr 25 x"
definition ch :: "32 word \<Rightarrow> 32 word \<Rightarrow> 32 word \<Rightarrow> 32 word" where
  "ch x y z = (x AND y) XOR (NOT x AND z)"
definition maj :: "32 word \<Rightarrow> 32 word \<Rightarrow> 32 word \<Rightarrow> 32 word" where
  "maj x y z = (x AND y) XOR (x AND z) XOR (y AND z)"

definition padMessage :: "8 word list \<Rightarrow> 8 word list" where
  "padMessage m = (let l = length m; k = (119 - l mod 64) mod 64; bits = (of_nat (8 * l) :: 64 word) in
     m @ [0x80] @ replicate k 0 @ map (\<lambda>i. ucast (drop_bit (8 * (7 - i)) bits)) [0..<8])"

fun bigEndianWords :: "8 word list \<Rightarrow> 32 word list" where
  "bigEndianWords (a # b # c # d # rest) =
     (push_bit 24 (ucast a) OR push_bit 16 (ucast b) OR push_bit 8 (ucast c) OR ucast d) # bigEndianWords rest"
| "bigEndianWords _ = []"

fun schedule :: "nat \<Rightarrow> 32 word list \<Rightarrow> 32 word list" where
  "schedule 0 w = w"
| "schedule (Suc n) w = (let t = length w in
     schedule n (w @ [ssig1 (w ! (t - 2)) + w ! (t - 7) + ssig0 (w ! (t - 15)) + w ! (t - 16)]))"

fun round256 :: "32 word \<times> 32 word \<Rightarrow> 32 word list \<Rightarrow> 32 word list" where
  "round256 (k, w) [a, b, c, d, e, f, g, h] =
     (let t1 = h + bsig1 e + ch e f g + k + w; t2 = bsig0 a + maj a b c
      in [t1 + t2, a, b, c, d + t1, e, f, g])"
| "round256 _ st = st"

definition compress :: "32 word list \<Rightarrow> 32 word list \<Rightarrow> 32 word list" where
  "compress st blockWords =
     map2 (+) st (fold round256 (zip K256 (schedule 48 blockWords)) st)"

function hashBlocks :: "32 word list \<Rightarrow> 32 word list \<Rightarrow> 32 word list" where
  "hashBlocks st ws = (if length ws < 16 then st else hashBlocks (compress st (take 16 ws)) (drop 16 ws))"
  by pat_completeness auto
termination
  by (relation "measure (\<lambda>(st, ws). length ws)") auto

declare hashBlocks.simps [simp del]

definition hexChar :: "nat \<Rightarrow> char" where
  "hexChar d = ''0123456789abcdef'' ! d"

definition hexWord :: "32 word \<Rightarrow> string" where
  "hexWord w = map (\<lambda>i. hexChar (unat (drop_bit (4 * (7 - i)) w AND 0xF))) [0..<8]"

definition sha256hex :: "string \<Rightarrow> string" where
  "sha256hex s = concat (map hexWord (hashBlocks H256 (bigEndianWords (padMessage (utf8 s)))))"

section \<open>BlockService\<close>

text \<open>
  \<^verbatim>\<open>src/services/block.service.ts\<close>, method by method. Every repository method returns
  a result and catches what its query throws, so the \<^verbatim>\<open>catch\<close> branches of
  \<^verbatim>\<open>processBlock\<close> and \<^verbatim>\<open>rollbackToHeight\<close> are not reached and have no counterpart here.
\<close>

definition validateHeight :: "'s IUTXORepository \<Rightarrow> int \<Rightarrow> 's \<Rightarrow> error + unit" where
  "validateHeight repository h s =
     (case getMaxBlockHeight repository s of
        Inl _ \<Rightarrow> Inl (InvalidBlockHeightError 400 None None)
      | Inr maxHeight \<Rightarrow>
          (let expectedHeight = maxHeight + 1 in
           if h \<noteq> expectedHeight
           then Inl (InvalidBlockHeightError 400 (Some maxHeight) (Some h))
           else Inr ()))"

text \<open>The regular expression \<^verbatim>\<open>/^0+$/\<close>: one or more characters, each of them \<^verbatim>\<open>0\<close>.\<close>

definition isCoinbaseInput :: "string \<Rightarrow> bool" where
  "isCoinbaseInput t = (t \<noteq> [] \<and> list_all (\<lambda>c. c = CHR ''0'') t)"

definition hasCoinbaseInputs :: "Transaction \<Rightarrow> bool" where
  "hasCoinbaseInputs tx = list_ex (\<lambda>i. isCoinbaseInput (txId i)) (inputs tx)"

definition hasRegularInputs :: "Transaction \<Rightarrow> bool" where
  "hasRegularInputs tx = list_ex (\<lambda>i. \<not> isCoinbaseInput (txId i)) (inputs tx)"

text \<open>\<^verbatim>\<open>transaction.outputs.reduce((sum, out) => sum + out.value, 0)\<close>\<close>

definition outputSum :: "Transaction \<Rightarrow> number" where
  "outputSum tx = fold (\<lambda>out sum. jsAdd sum (out_value out)) (outputs tx) (Finite 0)"

fun validateCoinbaseTransactions :: "Transaction list \<Rightarrow> error + unit" where
  "validateCoinbaseTransactions [] = Inr ()"
| "validateCoinbaseTransactions (tx # txs) =
     (if hasCoinbaseInputs tx \<and> hasRegularInputs tx then Inl (InvalidInputOutputSumError 400)
      else if hasCoinbaseInputs tx then validateCoinbaseTransactions txs
      else if length (inputs tx) = 0 \<and> outputSum tx \<noteq> Finite 0 then Inl (InvalidInputOutputSumError 400)
      else validateCoinbaseTransactions txs)"

text \<open>The key \<^verbatim>\<open>`${utxo.txid}:${utxo.vout}`\<close> of the lookup map.\<close>

definition utxoKey :: "string \<Rightarrow> int \<Rightarrow> string" where
  "utxoKey t v = t @ CHR '':'' # decimalString v"

definition buildUtxoMap :: "UTXO list \<Rightarrow> (string \<rightharpoonup> UTXO)" where
  "buildUtxoMap utxos = fold (\<lambda>u m. m(utxoKey (txid u) (vout u) \<mapsto> u)) utxos Map.empty"

text \<open>
  The inner loop over the inputs of one regular transaction: \<open>None\<close> when a key is not
  in the map (the loop returns the error), else the sum of the values found. The row
  holds the \<^verbatim>\<open>bigint\<close> of the column; the mapping of the column (\<^verbatim>\<open>mode: "number"\<close>) and
  \<^verbatim>\<open>Number(utxo.value)\<close> read it as the nearest double.
\<close>

fun sumInputs :: "(string \<rightharpoonup> UTXO) \<Rightarrow> Input list \<Rightarrow> number \<Rightarrow> number option" where
  "sumInputs utxoMap [] inputSum = Some inputSum"
| "sumInputs utxoMap (i # is) inputSum =
     (case utxoMap (utxoKey (txId i) (index i)) of
        None \<Rightarrow> None
      | Some utxo \<Rightarrow> sumInputs utxoMap is (jsAdd inputSum (nearestDouble (amount utxo))))"

fun validateSums :: "(string \<rightharpoonup> UTXO) \<Rightarrow> Transaction list \<Rightarrow> error + unit" where
  "validateSums utxoMap [] = Inr ()"
| "validateSums utxoMap (tx # txs) =
     (case sumInputs utxoMap (inputs tx) (Finite 0) of
        None \<Rightarrow> Inl (InvalidInputOutputSumError 400)
      | Some inputSum \<Rightarrow>
          if inputSum \<noteq> outputSum tx then Inl (InvalidInputOutputSumError 400)
          else validateSums utxoMap txs)"

definition regularTransactions :: "Transaction list \<Rightarrow> Transaction list" where
  "regularTransactions txs = filter (\<lambda>tx. \<not> hasCoinbaseInputs tx \<and> length (inputs tx) > 0) txs"

definition inputRefs :: "Transaction list \<Rightarrow> (string \<times> int) list" where
  "inputRefs txs = concat (map (\<lambda>tx. map (\<lambda>i. (txId i, index i)) (inputs tx)) txs)"

definition validateRegularTransactions ::
  "'s IUTXORepository \<Rightarrow> Transaction list \<Rightarrow> 's \<Rightarrow> error + unit" where
  "validateRegularTransactions repository txs s =
     (let regular = regularTransactions txs in
      if length regular = 0 then Inr ()
      else case findByTxIdsAndVouts repository (inputRefs regular) s of
             Inl _ \<Rightarrow> Inl (InvalidInputOutputSumError 400)
           | Inr utxos \<Rightarrow> validateSums (buildUtxoMap utxos) regular)"

definition validateInputOutputSum :: "'s IUTXORepository \<Rightarrow> Block \<Rightarrow> 's \<Rightarrow> error + unit" where
  "validateInputOutputSum repository block s =
     (case validateCoinbaseTransactions (transactions block) of
        Inl e \<Rightarrow> Inl e
      | Inr _ \<Rightarrow>
          (case validateRegularTransactions repository (transactions block) s of
             Inl e \<Rightarrow> Inl e
           | Inr _ \<Rightarrow> Inr ()))"

text \<open>\<^verbatim>\<open>txId.padEnd(64, "0").substring(0, 64)\<close>\<close>

definition padTxId :: "string \<Rightarrow> string" where
  "padTxId t = take 64 (t @ replicate (64 - length t) CHR ''0'')"

definition expectedHash :: "Block \<Rightarrow> string" where
  "expectedHash block =
     sha256hex (decimalString (height block)
                @ concat (map (\<lambda>tx. padTxId (tx_id tx)) (transactions block)))"

definition validateBlockId :: "Block \<Rightarrow> error + unit" where
  "validateBlockId block =
     (if block_id block \<noteq> expectedHash block then Inl (InvalidBlockIdError 400) else Inr ())"

text \<open>
  The apply phase of \<^verbatim>\<open>processBlock\<close>. The store is mutated call by call, so every loop
  returns the store it has reached together with its result: after an error the writes
  made before it stay.
\<close>

fun markInputs ::
  "'s IUTXORepository \<Rightarrow> string \<Rightarrow> Input list \<Rightarrow> 's \<Rightarrow> (error + unit) \<times> 's" where
  "markInputs repository tid [] s = (Inr (), s)"
| "markInputs repository tid (i # is) s =
     (if isCoinbaseInput (txId i) then markInputs repository tid is s
      else case markAsSpent repository (txId i) (index i) tid s of
             Inl e \<Rightarrow> (Inl e, s)
           | Inr s' \<Rightarrow> markInputs repository tid is s')"

fun createOutputs ::
  "'s IUTXORepository \<Rightarrow> string \<Rightarrow> int \<Rightarrow> int \<Rightarrow> Output list \<Rightarrow> 's \<Rightarrow> (error + unit) \<times> 's" where
  "createOutputs repository tid h i [] s = (Inr (), s)"
| "createOutputs repository tid h i (out # outs) s =
     (case insert_utxo repository
             \<lparr>txid = tid, vout = i, address = out_address out, amount = out_value out,
              scriptPubkey = [], blockHeight = h, spent = False, spentTxid = None\<rparr> s of
        Inl e \<Rightarrow> (Inl e, s)
      | Inr s' \<Rightarrow> createOutputs repository tid h (i + 1) outs s')"

fun processTransactions ::
  "'s IUTXORepository \<Rightarrow> int \<Rightarrow> Transaction list \<Rightarrow> 's \<Rightarrow> (error + unit) \<times> 's" where
  "processTransactions repository h [] s = (Inr (), s)"
| "processTransactions repository h (tx # txs) s =
     (case markInputs repository (tx_id tx) (inputs tx) s of
        (Inl e, s') \<Rightarrow> (Inl e, s')
      | (Inr _, s') \<Rightarrow>
          (case createOutputs repository (tx_id tx) h 0 (outputs tx) s' of
             (Inl e, s'') \<Rightarrow> (Inl e, s'')
           | (Inr _, s'') \<Rightarrow> processTransactions repository h txs s''))"

definition processBlock :: "'s IUTXORepository \<Rightarrow> Block \<Rightarrow> 's \<Rightarrow> (error + unit) \<times> 's" where
  "processBlock repository block s =
     (case validateHeight repository (height block) s of
        Inl e \<Rightarrow> (Inl e, s)
      | Inr _ \<Rightarrow>
          (case validateInputOutputSum repository block s of
             Inl e \<Rightarrow> (Inl e, s)
           | Inr _ \<Rightarrow>
               (case validateBlockId block of
                  Inl e \<Rightarrow> (Inl e, s)
                | Inr _ \<Rightarrow> processTransactions repository (height block) (transactions block) s)))"

section \<open>RollbackService\<close>

definition validateRollbackHeight :: "'s IUTXORepository \<Rightarrow> int \<Rightarrow> 's \<Rightarrow> error + unit" where
  "validateRollbackHeight repository targetHeight s =
     (if targetHeight < 0 then Inl (InvalidRollbackHeightError 400 (Some targetHeight) None)
      else case getMaxBlockHeight repository s of
             Inl _ \<Rightarrow> Inl (InvalidRollbackHeightError 400 (Some targetHeight) None)
           | Inr currentMaxHeight \<Rightarrow>
               if targetHeight > currentMaxHeight
               then Inl (InvalidRollbackHeightError 400 (Some targetHeight) (Some currentMaxHeight))
               else Inr ())"

text \<open>\<^verbatim>\<open>Set.add\<close> keeps the order of first insertion; \<^verbatim>\<open>Array.from\<close> reads it back.\<close>

definition setAdd :: "string \<Rightarrow> string list \<Rightarrow> string list" where
  "setAdd x xs = (if x \<in> set xs then xs else xs @ [x])"

definition txIdsToRollback :: "UTXO list \<Rightarrow> string list" where
  "txIdsToRollback utxosToDelete = fold (\<lambda>utxo acc. setAdd (txid utxo) acc) utxosToDelete []"

definition rollbackToHeight :: "'s IUTXORepository \<Rightarrow> int \<Rightarrow> 's \<Rightarrow> (error + unit) \<times> 's" where
  "rollbackToHeight repository targetHeight s =
     (case validateRollbackHeight repository targetHeight s of
        Inl e \<Rightarrow> (Inl e, s)
      | Inr _ \<Rightarrow>
     (case findUTXOsByBlockHeight repository targetHeight s of
        Inl e \<Rightarrow> (Inl e, s)
      | Inr utxosToDelete \<Rightarrow>
          if length utxosToDelete = 0
          then (case getMaxBlockHeight repository s of
                  Inl _ \<Rightarrow> (Inl (InvalidRollbackHeightError 400 (Some targetHeight) None), s)
                | Inr currentMaxHeight \<Rightarrow>
                    (Inl (NoBlocksToRollbackError 400 targetHeight currentMaxHeight), s))
          else
            (let ids = txIdsToRollback utxosToDelete in
             case (if length ids > 0 then unmarkAsSpent repository ids s else Inr s) of
               Inl e \<Rightarrow> (Inl e, s)
             | Inr s' \<Rightarrow>
                 (case deleteUTXOsByBlockHeight repository targetHeight s' of
                    Inl e \<Rightarrow> (Inl e, s')
                  | Inr s'' \<Rightarrow> (Inr (), s'')))))"

section \<open>UTXORepository\<close>

text \<open>
  \<^verbatim>\<open>src/repositories/utxo.repository.impl.ts\<close> over the table of \<^verbatim>\<open>src/db/schema.ts\<close> in
  PostgreSQL. The table is the list of its rows, in the order of insertion. Every method
  wraps its query in \<^verbatim>\<open>try\<close>/\<^verbatim>\<open>catch\<close> and returns \<^verbatim>\<open>DatabaseError({ statusCode: 500 })\<close> when
  the query throws; a query throws when a value does not fit the type of its column.

  \<^item> A string that holds the character with code 0 is no text value (\<open>pgText\<close>).
  \<^item> \<^verbatim>\<open>txid\<close> and \<^verbatim>\<open>spent_txid\<close> are \<^verbatim>\<open>char(64)\<close>: a shorter string is stored filled with
    blanks to 64 characters and read back so; a longer one is refused unless all that
    exceeds 64 characters is blanks, which are cut (\<open>char64\<close>). A comparison with such a
    column ignores trailing blanks on both sides (\<open>bpcharEq\<close>).
  \<^item> \<^verbatim>\<open>address\<close> is \<^verbatim>\<open>varchar(64)\<close>: stored as it is, with the same bound (\<open>varchar64\<close>), and
    compared as it is.
  \<^item> \<^verbatim>\<open>vout\<close> and \<^verbatim>\<open>block_height\<close> are 32-bit integers (\<open>int4\<close>), \<^verbatim>\<open>value\<close> is a 64-bit
    integer (\<open>int8\<close>).
  \<^item> The unique index \<^verbatim>\<open>utxos_txid_vout_unique\<close> refuses a second row with the same
    \<^verbatim>\<open>(txid, vout)\<close>.

  A \<^typ>\<open>char\<close> stands for a character with a code below 256.
\<close>

type_synonym table = "UTXO list"

definition pgText :: "string \<Rightarrow> bool" where
  "pgText t \<longleftrightarrow> CHR 0x00 \<notin> set t"

definition rtrim :: "string \<Rightarrow> string" where
  "rtrim t = rev (dropWhile (\<lambda>c. c = CHR '' '') (rev t))"

definition bpcharEq :: "string \<Rightarrow> string \<Rightarrow> bool" where
  "bpcharEq a b \<longleftrightarrow> rtrim a = rtrim b"

definition char64 :: "string \<Rightarrow> string option" where
  "char64 t = (if \<not> pgText t \<or> 64 < length (rtrim t) then None
               else Some (take 64 (t @ replicate (64 - length t) CHR '' '')))"

definition varchar64 :: "string \<Rightarrow> string option" where
  "varchar64 t = (if \<not> pgText t \<or> 64 < length (rtrim t) then None else Some (take 64 t))"

definition int4 :: "int \<Rightarrow> bool" where
  "int4 v \<longleftrightarrow> - 2147483648 \<le> v \<and> v \<le> 2147483647"

definition int8 :: "int \<Rightarrow> bool" where
  "int8 v \<longleftrightarrow> - 9223372036854775808 \<le> v \<and> v \<le> 9223372036854775807"

text \<open>
  The row that \<^verbatim>\<open>INSERT\<close> makes of the values it is given, or \<open>None\<close> when one of them
  does not fit its column.
\<close>

definition toRow :: "UTXO \<Rightarrow> UTXO option" where
  "toRow utxo =
     (case (char64 (txid utxo), varchar64 (address utxo),
            (case spentTxid utxo of None \<Rightarrow> Some None | Some x \<Rightarrow> map_option Some (char64 x))) of
        (Some t, Some a, Some sp) \<Rightarrow>
          if int4 (vout utxo) \<and> int8 (printedInteger (amount utxo)) \<and> pgText (scriptPubkey utxo)
             \<and> int4 (blockHeight utxo)
          then Some (utxo\<lparr>txid := t, address := a, amount := printedInteger (amount utxo),
                          spentTxid := sp\<rparr>)
          else None
      | _ \<Rightarrow> None)"

text \<open>
  \<^verbatim>\<open>SUM\<close> adds the column exactly; \<^verbatim>\<open>Number\<close> reads the total as the nearest double.
\<close>

definition UTXORepository_getBalanceByAddress :: "string \<Rightarrow> table \<Rightarrow> error + int" where
  "UTXORepository_getBalanceByAddress a s =
     (if \<not> pgText a then Inl (DatabaseError 500)
      else Inr (nearestDouble
                  (sum_list (map amount (filter (\<lambda>u. address u = a \<and> spent u = False) s)))))"

definition UTXORepository_findByTxIdsAndVouts ::
  "(string \<times> int) list \<Rightarrow> table \<Rightarrow> error + UTXO list" where
  "UTXORepository_findByTxIdsAndVouts refs s =
     (if length refs = 0 then Inr []
      else if list_ex (\<lambda>(t, v). \<not> pgText t \<or> \<not> int4 v) refs then Inl (DatabaseError 500)
      else Inr (filter (\<lambda>u. list_ex (\<lambda>(t, v). bpcharEq (txid u) t \<and> vout u = v \<and> spent u = False)
                                     refs) s))"

definition UTXORepository_insert :: "UTXO \<Rightarrow> table \<Rightarrow> error + table" where
  "UTXORepository_insert utxo s =
     (case toRow utxo of
        None \<Rightarrow> Inl (DatabaseError 500)
      | Some row \<Rightarrow>
          if list_ex (\<lambda>u. txid u = txid row \<and> vout u = vout row) s then Inl (DatabaseError 500)
          else Inr (s @ [row]))"

text \<open>
  \<^verbatim>\<open>markAsSpent\<close> runs a \<^verbatim>\<open>SELECT\<close> with \<^verbatim>\<open>txId\<close> and \<^verbatim>\<open>vout\<close>, looks at the first row found,
  and then runs the \<^verbatim>\<open>UPDATE\<close>, which is where \<^verbatim>\<open>spentTxid\<close> meets its column.
\<close>

definition UTXORepository_markAsSpent ::
  "string \<Rightarrow> int \<Rightarrow> string \<Rightarrow> table \<Rightarrow> error + table" where
  "UTXORepository_markAsSpent t v spender s =
     (if \<not> pgText t \<or> \<not> int4 v then Inl (DatabaseError 500)
      else case filter (\<lambda>u. bpcharEq (txid u) t \<and> vout u = v) s of
        [] \<Rightarrow> Inl (UTXONotFoundError 404)
      | utxoCheck # _ \<Rightarrow>
          if spent utxoCheck then Inl (UTXONotFoundError 404)
          else (case char64 spender of
                  None \<Rightarrow> Inl (DatabaseError 500)
                | Some sp \<Rightarrow>
                    Inr (map (\<lambda>u. if bpcharEq (txid u) t \<and> vout u = v
                                   then u\<lparr>spent := True, spentTxid := Some sp\<rparr> else u) s)))"

definition UTXORepository_getMaxBlockHeight :: "table \<Rightarrow> error + int" where
  "UTXORepository_getMaxBlockHeight s =
     Inr (case s of [] \<Rightarrow> 0 | u # us \<Rightarrow> fold (\<lambda>r m. max m (blockHeight r)) us (blockHeight u))"

text \<open>
  \<^verbatim>\<open>rollbackToHeight\<close> calls the two queries by height with a target that
  \<^verbatim>\<open>validateRollbackHeight\<close> has found between 0 and the greatest \<^verbatim>\<open>block_height\<close> of the
  table, a value of the column's type, and \<^verbatim>\<open>unmarkAsSpent\<close> with identifiers read from the
  table.
\<close>

definition UTXORepository_findUTXOsByBlockHeight :: "int \<Rightarrow> table \<Rightarrow> error + UTXO list" where
  "UTXORepository_findUTXOsByBlockHeight minHeight s =
     Inr (filter (\<lambda>u. blockHeight u > minHeight) s)"

definition UTXORepository_unmarkAsSpent :: "string list \<Rightarrow> table \<Rightarrow> error + table" where
  "UTXORepository_unmarkAsSpent txIds s =
     (if length txIds = 0 then Inr s
      else if list_ex (\<lambda>t. \<not> pgText t) txIds then Inl (DatabaseError 500)
      else Inr (map (\<lambda>u. if spent u \<and> list_ex (\<lambda>t. case spentTxid u of None \<Rightarrow> False
                                                        | Some x \<Rightarrow> bpcharEq x t) txIds
                          then u\<lparr>spent := False, spentTxid := None\<rparr> else u) s))"

definition UTXORepository_deleteUTXOsByBlockHeight :: "int \<Rightarrow> table \<Rightarrow> error + table" where
  "UTXORepository_deleteUTXOsByBlockHeight minHeight s =
     Inr (filter (\<lambda>u. \<not> blockHeight u > minHeight) s)"

definition UTXORepository :: "table IUTXORepository" where
  "UTXORepository =
     \<lparr>getBalanceByAddress = UTXORepository_getBalanceByAddress,
      findByTxIdsAndVouts = UTXORepository_findByTxIdsAndVouts,
      insert_utxo = UTXORepository_insert,
      markAsSpent = UTXORepository_markAsSpent,
      getMaxBlockHeight = UTXORepository_getMaxBlockHeight,
      findUTXOsByBlockHeight = UTXORepository_findUTXOsByBlockHeight,
      unmarkAsSpent = UTXORepository_unmarkAsSpent,
      deleteUTXOsByBlockHeight = UTXORepository_deleteUTXOsByBlockHeight\<rparr>"

text \<open>
  \<open>UTXORepository_down\<close> is the repository over a database that refuses every query.
\<close>

definition UTXORepository_down :: "table IUTXORepository" where
  "UTXORepository_down =
     \<lparr>getBalanceByAddress = (\<lambda>_ _. Inl (DatabaseError 500)),
      findByTxIdsAndVouts = (\<lambda>_ _. Inl (DatabaseError 500)),
      insert_utxo = (\<lambda>_ _. Inl (DatabaseError 500)),
      markAsSpent = (\<lambda>_ _ _ _. Inl (DatabaseError 500)),
      getMaxBlockHeight = (\<lambda>_. Inl (DatabaseError 500)),
      findUTXOsByBlockHeight = (\<lambda>_ _. Inl (DatabaseError 500)),
      unmarkAsSpent = (\<lambda>_ _. Inl (DatabaseError 500)),
      deleteUTXOsByBlockHeight = (\<lambda>_ _. Inl (DatabaseError 500))\<rparr>"

text \<open>The tip: \<^verbatim>\<open>getMaxBlockHeight\<close> of the table, which never fails.\<close>

definition tip :: "table \<Rightarrow> int" where
  "tip s = (case s of [] \<Rightarrow> 0 | u # us \<Rightarrow> fold (\<lambda>r m. max m (blockHeight r)) us (blockHeight u))"

text \<open>
  The stores the service can be in: the empty table, and what a call of \<^verbatim>\<open>processBlock\<close>
  or of \<^verbatim>\<open>rollbackToHeight\<close> leaves behind, whether the call succeeds or fails.
\<close>

inductive reachable :: "table \<Rightarrow> bool" where
  reachable_empty: "reachable []"
| reachable_processBlock: "reachable s \<Longrightarrow> reachable (snd (processBlock UTXORepository block s))"
| reachable_rollbackToHeight:
    "reachable s \<Longrightarrow> reachable (snd (rollbackToHeight UTXORepository targetHeight s))"

section \<open>The specification's reading of the padding\<close>

text \<open>
  Following the words of the specification, to be compared with \<open>padTxId\<close>: \<open>pad64\<close>
  right-pads with \<^verbatim>\<open>0\<close> to exactly 64 characters and truncates a longer string to 64.
\<close>

definition pad64 :: "string \<Rightarrow> string" where
  "pad64 t = (if length t < 64 then t @ replicate (64 - length t) CHR ''0'' else take 64 t)"

section \<open>The specification's reading of the lookup and of the sums\<close>

text \<open>
  Following the words of the specification, to be compared with the map that
  \<open>validateRegularTransactions\<close> builds: an input resolves to the row with its
  \<^verbatim>\<open>(txId, index)\<close> that is not spent, and the input sum of a transaction adds the values
  of the rows its inputs resolve to. \<open>jsSum\<close> is the sum of a list of numbers as
  JavaScript adds them, from the left and starting at 0; a stored value enters it as the
  double it is read as. \<open>utxos_txid_vout_unique\<close> is the unique index of the table.
\<close>

definition resolveInput :: "table \<Rightarrow> Input \<Rightarrow> UTXO option" where
  "resolveInput s i = find (\<lambda>u. txid u = txId i \<and> vout u = index i \<and> \<not> spent u) s"

definition jsSum :: "int list \<Rightarrow> number" where
  "jsSum vs = foldl jsAdd (Finite 0) vs"


definition utxos_txid_vout_unique :: "table \<Rightarrow> bool" where
  "utxos_txid_vout_unique s = distinct (map (\<lambda>u. (txid u, vout u)) s)"

text \<open>
  \<open>rowTyped\<close> holds of a row whose values are values of their columns, \<open>tableTyped\<close> of a
  table of such rows.
\<close>

definition rowTyped :: "UTXO \<Rightarrow> bool" where
  "rowTyped u \<longleftrightarrow>
     length (txid u) = 64 \<and> pgText (txid u) \<and> int4 (vout u)
     \<and> length (address u) \<le> 64 \<and> pgText (address u) \<and> int8 (amount u)
     \<and> pgText (scriptPubkey u) \<and> int4 (blockHeight u)
     \<and> (case spentTxid u of None \<Rightarrow> True | Some x \<Rightarrow> length x = 64 \<and> pgText x)"

definition tableTyped :: "table \<Rightarrow> bool" where
  "tableTyped s = list_all rowTyped s"

text \<open>The rows that the query of \<^verbatim>\<open>findByTxIdsAndVouts\<close> selects.\<close>

definition found :: "(string \<times> int) list \<Rightarrow> table \<Rightarrow> UTXO list" where
  "found refs s =
     filter (\<lambda>u. list_ex (\<lambda>(t, v). bpcharEq (txid u) t \<and> vout u = v \<and> spent u = False) refs) s"

section \<open>The writes of the apply phase\<close>

text \<open>
  The calls of \<^verbatim>\<open>markAsSpent\<close> and \<^verbatim>\<open>insert\<close> that the loops of \<^verbatim>\<open>processBlock\<close> make for
  a block, with their arguments and in their order: for each transaction one call of
  \<^verbatim>\<open>markAsSpent\<close> per input that is not a coinbase input, then one call of \<^verbatim>\<open>insert\<close>
  per output. \<open>applyWrites\<close> runs such a list against a repository and stops at the
  first call that fails.
\<close>

datatype storeWrite = MarkAsSpent string int string | Insert UTXO

fun runWrite :: "'s IUTXORepository \<Rightarrow> storeWrite \<Rightarrow> 's \<Rightarrow> error + 's" where
  "runWrite repository (MarkAsSpent t v spender) s = markAsSpent repository t v spender s"
| "runWrite repository (Insert utxo) s = insert_utxo repository utxo s"

fun applyWrites :: "'s IUTXORepository \<Rightarrow> storeWrite list \<Rightarrow> 's \<Rightarrow> (error + unit) \<times> 's" where
  "applyWrites repository [] s = (Inr (), s)"
| "applyWrites repository (w # ws) s =
     (case runWrite repository w s of
        Inl e \<Rightarrow> (Inl e, s)
      | Inr s' \<Rightarrow> applyWrites repository ws s')"

definition inputWrites :: "string \<Rightarrow> Input list \<Rightarrow> storeWrite list" where
  "inputWrites tid ins =
     map (\<lambda>i. MarkAsSpent (txId i) (index i) tid) (filter (\<lambda>i. \<not> isCoinbaseInput (txId i)) ins)"

fun outputWrites :: "string \<Rightarrow> int \<Rightarrow> int \<Rightarrow> Output list \<Rightarrow> storeWrite list" where
  "outputWrites tid h i [] = []"
| "outputWrites tid h i (out # outs) =
     Insert \<lparr>txid = tid, vout = i, address = out_address out, amount = out_value out,
             scriptPubkey = [], blockHeight = h, spent = False, spentTxid = None\<rparr>
     # outputWrites tid h (i + 1) outs"

definition transactionWrites :: "int \<Rightarrow> Transaction \<Rightarrow> storeWrite list" where
  "transactionWrites h tx =
     inputWrites (tx_id tx) (inputs tx) @ outputWrites (tx_id tx) h 0 (outputs tx)"

definition blockWrites :: "Block \<Rightarrow> storeWrite list" where
  "blockWrites block = concat (map (transactionWrites (height block)) (transactions block))"

section \<open>Heights present in the table\<close>

text \<open>
  \<open>contiguous\<close> is the fifth invariant of the data model: the heights present are
  exactly those from 1 to the tip. \<open>unmarkRows\<close> is the \<^verbatim>\<open>UPDATE\<close> of \<^verbatim>\<open>unmarkAsSpent\<close>.
\<close>

definition contiguous :: "table \<Rightarrow> bool" where
  "contiguous s \<longleftrightarrow> blockHeight ` set s = {1..tip s}"

definition unmarkRows :: "string list \<Rightarrow> table \<Rightarrow> table" where
  "unmarkRows ids s =
     map (\<lambda>u. if spent u \<and> list_ex (\<lambda>t. case spentTxid u of None \<Rightarrow> False
                                                | Some x \<Rightarrow> bpcharEq x t) ids
              then u\<lparr>spent := False, spentTxid := None\<rparr> else u) s"

section \<open>Ingesting a chain and rolling it back\<close>

text \<open>
  \<open>ingest\<close> submits blocks in order and asks that each be accepted. \<open>createsOutput\<close>
  holds of a block with at least one output, \<open>spendersCreateOutput\<close> of a block in which
  every transaction with an input that is not a coinbase input has at least one output.
  \<open>restore\<close> is the table that the two statements of \<^verbatim>\<open>rollbackToHeight\<close> leave:
  \<^verbatim>\<open>unmarkAsSpent\<close> with the identifiers of the rows above the target, then
  \<^verbatim>\<open>deleteUTXOsByBlockHeight\<close>. \<open>storeInv\<close> collects what ingestion maintains: the types of
  the columns, the unique index, no \<^verbatim>\<open>spent_txid\<close> on an unspent row, and for every spent
  row a row with output index 0 of the transaction that spent it. \<open>markRows\<close>, \<open>markIf\<close> and \<open>unmarkIf\<close> are the
  updates of \<^verbatim>\<open>markAsSpent\<close> and \<^verbatim>\<open>unmarkAsSpent\<close> on rows.
\<close>

fun ingest :: "Block list \<Rightarrow> table \<Rightarrow> table option" where
  "ingest [] s = Some s"
| "ingest (block # blocks) s =
     (case processBlock UTXORepository block s of
        (Inl _, _) \<Rightarrow> None
      | (Inr _, s') \<Rightarrow> ingest blocks s')"

definition createsOutput :: "Block \<Rightarrow> bool" where
  "createsOutput block = list_ex (\<lambda>tx. outputs tx \<noteq> []) (transactions block)"

definition spendersCreateOutput :: "Block \<Rightarrow> bool" where
  "spendersCreateOutput block =
     list_all (\<lambda>tx. hasRegularInputs tx \<longrightarrow> outputs tx \<noteq> []) (transactions block)"

definition storeInv :: "table \<Rightarrow> bool" where
  "storeInv s \<longleftrightarrow>
     tableTyped s \<and> utxos_txid_vout_unique s
     \<and> (\<forall>u\<in>set s. \<not> spent u \<longrightarrow> spentTxid u = None)
     \<and> (\<forall>u\<in>set s. spent u \<longrightarrow> (\<exists>x. spentTxid u = Some x \<and> (x, 0) \<in> (\<lambda>r. (txid r, vout r)) ` set s))"

definition restore :: "int \<Rightarrow> table \<Rightarrow> table" where
  "restore k s =
     filter (\<lambda>u. \<not> k < blockHeight u)
       (unmarkRows (txIdsToRollback (filter (\<lambda>u. k < blockHeight u) s)) s)"

definition markRows :: "(string \<times> int) set \<Rightarrow> string \<Rightarrow> table \<Rightarrow> table" where
  "markRows M x s =
     map (\<lambda>r. if (txid r, vout r) \<in> M then r\<lparr>spent := True, spentTxid := Some x\<rparr> else r) s"

definition unmarkIf :: "string set \<Rightarrow> UTXO \<Rightarrow> UTXO" where
  "unmarkIf I r = (if spent r \<and> (\<exists>x\<in>I. spentTxid r = Some x)
                   then r\<lparr>spent := False, spentTxid := None\<rparr> else r)"

definition markIf :: "(string \<times> int) set \<Rightarrow> string \<Rightarrow> UTXO \<Rightarrow> UTXO" where
  "markIf M x r = (if (txid r, vout r) \<in> M then r\<lparr>spent := True, spentTxid := Some x\<rparr> else r)"

section \<open>Example blocks\<close>

text \<open>
  Blocks as the endpoint \<^verbatim>\<open>POST /blocks\<close> can receive them. \<open>withBlockId\<close> gives a block
  the identifier that \<open>validateBlockId\<close> expects, as \<^verbatim>\<open>calculateBlockId\<close> of the tests does.
\<close>

definition withBlockId :: "Block \<Rightarrow> Block" where
  "withBlockId block = block\<lparr>block_id := expectedHash block\<rparr>"

definition block_bad_id :: Block where
  "block_bad_id = \<lparr>block_id = [], height = 1, transactions = []\<rparr>"

definition block_bad_height :: Block where
  "block_bad_height = \<lparr>block_id = [], height = 5, transactions = []\<rparr>"

definition block_sum_mismatch :: Block where
  "block_sum_mismatch =
     \<lparr>block_id = [], height = 1,
      transactions = [\<lparr>tx_id = ''tx1'', inputs = [],
                       outputs = [\<lparr>out_address = ''addr1'', out_value = 100\<rparr>]\<rparr>]\<rparr>"

definition block_empty_tx :: Block where
  "block_empty_tx =
     withBlockId \<lparr>block_id = [], height = 1,
                  transactions = [\<lparr>tx_id = ''tx1'', inputs = [], outputs = []\<rparr>]\<rparr>"

text \<open>
  The coinbase input of the tests, and blocks built from it whose identifiers have 64
  characters, as \<^verbatim>\<open>createValidBlock\<close> of the tests makes them. \<open>store_coinbase\<close>,
  \<open>store_double_spend\<close> and \<open>store_spend\<close> are the tables the blocks below leave behind.
\<close>

definition coinbaseInput :: Input where
  "coinbaseInput = \<lparr>txId = ''0000000000000000000000000000000000000000000000000000000000000000'', index = 0\<rparr>"

definition block_coinbase :: Block where
  "block_coinbase =
     withBlockId \<lparr>block_id = [], height = 1,
       transactions = [\<lparr>tx_id = padTxId ''tx1'', inputs = [coinbaseInput],
                        outputs = [\<lparr>out_address = ''addr1'', out_value = 100\<rparr>]\<rparr>]\<rparr>"

definition store_coinbase :: table where
  "store_coinbase =
     [\<lparr>txid = padTxId ''tx1'', vout = 0, address = ''addr1'', amount = 100, scriptPubkey = [],
       blockHeight = 1, spent = False, spentTxid = None\<rparr>]"

definition block_double_spend :: Block where
  "block_double_spend =
     withBlockId \<lparr>block_id = [], height = 2,
       transactions =
         [\<lparr>tx_id = padTxId ''tx2'', inputs = [\<lparr>txId = padTxId ''tx1'', index = 0\<rparr>],
           outputs = [\<lparr>out_address = ''addr2'', out_value = 100\<rparr>]\<rparr>,
          \<lparr>tx_id = padTxId ''tx3'', inputs = [\<lparr>txId = padTxId ''tx1'', index = 0\<rparr>],
           outputs = [\<lparr>out_address = ''addr3'', out_value = 100\<rparr>]\<rparr>]\<rparr>"

definition store_double_spend :: table where
  "store_double_spend =
     [\<lparr>txid = padTxId ''tx1'', vout = 0, address = ''addr1'', amount = 100, scriptPubkey = [],
       blockHeight = 1, spent = True, spentTxid = Some (padTxId ''tx2'')\<rparr>,
      \<lparr>txid = padTxId ''tx2'', vout = 0, address = ''addr2'', amount = 100, scriptPubkey = [],
       blockHeight = 2, spent = False, spentTxid = None\<rparr>]"

definition block_spend :: Block where
  "block_spend =
     withBlockId \<lparr>block_id = [], height = 2,
       transactions =
         [\<lparr>tx_id = padTxId ''tx2'', inputs = [\<lparr>txId = padTxId ''tx1'', index = 0\<rparr>],
           outputs = [\<lparr>out_address = ''addr2'', out_value = 100\<rparr>]\<rparr>]\<rparr>"

definition store_spend :: table where
  "store_spend =
     [\<lparr>txid = padTxId ''tx1'', vout = 0, address = ''addr1'', amount = 100, scriptPubkey = [],
       blockHeight = 1, spent = True, spentTxid = Some (padTxId ''tx2'')\<rparr>,
      \<lparr>txid = padTxId ''tx2'', vout = 0, address = ''addr2'', amount = 100, scriptPubkey = [],
       blockHeight = 2, spent = False, spentTxid = None\<rparr>]"

text \<open>
  Blocks whose identifiers are shorter than 64 characters. \<open>block_short_id\<close> creates an
  output under the identifier \<^verbatim>\<open>tx1\<close>; \<open>store_short_id\<close> is the table it leaves, \<open>blanks64\<close>
  filling the identifier with blanks as the column does. The three blocks after it spend
  that output, naming it \<^verbatim>\<open>tx1\<close>, \<^verbatim>\<open>tx1\<close> padded with zeros, and \<^verbatim>\<open>tx1\<close> filled with blanks.
\<close>

definition blanks64 :: "string \<Rightarrow> string" where
  "blanks64 t = t @ replicate (64 - length t) CHR '' ''"

definition block_short_id :: Block where
  "block_short_id =
     withBlockId \<lparr>block_id = [], height = 1,
       transactions = [\<lparr>tx_id = ''tx1'', inputs = [coinbaseInput],
                        outputs = [\<lparr>out_address = ''addr1'', out_value = 100\<rparr>]\<rparr>]\<rparr>"

definition store_short_id :: table where
  "store_short_id =
     [\<lparr>txid = blanks64 ''tx1'', vout = 0, address = ''addr1'', amount = 100, scriptPubkey = [],
       blockHeight = 1, spent = False, spentTxid = None\<rparr>]"

definition block_spend_short_id :: "string \<Rightarrow> Block" where
  "block_spend_short_id t =
     withBlockId \<lparr>block_id = [], height = 2,
       transactions =
         [\<lparr>tx_id = ''tx2'', inputs = [\<lparr>txId = t, index = 0\<rparr>],
           outputs = [\<lparr>out_address = ''addr2'', out_value = 100\<rparr>]\<rparr>]\<rparr>"

definition store_spend_short_id :: table where
  "store_spend_short_id =
     [\<lparr>txid = blanks64 ''tx1'', vout = 0, address = ''addr1'', amount = 100, scriptPubkey = [],
       blockHeight = 1, spent = True, spentTxid = Some (blanks64 ''tx2'')\<rparr>,
      \<lparr>txid = blanks64 ''tx2'', vout = 0, address = ''addr2'', amount = 100, scriptPubkey = [],
       blockHeight = 2, spent = False, spentTxid = None\<rparr>]"

text \<open>
  \<open>block_long_id\<close> creates an output under an identifier of 65 characters.
\<close>

definition block_long_id :: Block where
  "block_long_id =
     withBlockId \<lparr>block_id = [], height = 1,
       transactions = [\<lparr>tx_id = replicate 65 CHR ''a'', inputs = [coinbaseInput],
                        outputs = [\<lparr>out_address = ''addr1'', out_value = 100\<rparr>]\<rparr>]\<rparr>"

text \<open>
  \<open>block_sibling_spend\<close> is the block of the test \<^verbatim>\<open>should reject block that tries to spend
  UTXO from same block\<close>. In \<open>block_reused_id\<close> the first transaction has the identifier of
  the coinbase transaction of block 1 again, and the second spends output 0 under that
  identifier.
\<close>

definition block_sibling_spend :: Block where
  "block_sibling_spend =
     withBlockId \<lparr>block_id = [], height = 2,
       transactions =
         [\<lparr>tx_id = padTxId ''tx2'', inputs = [\<lparr>txId = padTxId ''tx1'', index = 0\<rparr>],
           outputs = [\<lparr>out_address = ''addr2'', out_value = 100\<rparr>]\<rparr>,
          \<lparr>tx_id = padTxId ''tx3'', inputs = [\<lparr>txId = padTxId ''tx2'', index = 0\<rparr>],
           outputs = [\<lparr>out_address = ''addr3'', out_value = 100\<rparr>]\<rparr>]\<rparr>"

definition block_reused_id :: Block where
  "block_reused_id =
     withBlockId \<lparr>block_id = [], height = 2,
       transactions =
         [\<lparr>tx_id = padTxId ''tx1'', inputs = [coinbaseInput],
           outputs = [\<lparr>out_address = ''addr2'', out_value = 50\<rparr>]\<rparr>,
          \<lparr>tx_id = padTxId ''tx3'', inputs = [\<lparr>txId = padTxId ''tx1'', index = 0\<rparr>],
           outputs = [\<lparr>out_address = ''addr3'', out_value = 100\<rparr>]\<rparr>]\<rparr>"

text \<open>
  Blocks whose sums leave the range in which doubles are exact. The transaction of
  \<open>block_rounding\<close> has no input and three outputs whose values add up to 1. In
  \<open>block_big_coinbase\<close> a coinbase transaction creates an output of \<open>2 ^ 53\<close>, which leaves
  \<open>store_big\<close>, and the transaction of \<open>block_big_spend\<close> spends it into that value and 1
  more, which leaves \<open>store_big_spent\<close>.
\<close>

definition block_rounding :: Block where
  "block_rounding =
     withBlockId \<lparr>block_id = [], height = 1,
       transactions = [\<lparr>tx_id = padTxId ''tx1'', inputs = [],
                        outputs = [\<lparr>out_address = ''addr1'', out_value = 9007199254740991\<rparr>,
                                   \<lparr>out_address = ''addr2'', out_value = 2\<rparr>,
                                   \<lparr>out_address = ''addr3'', out_value = - 9007199254740992\<rparr>]\<rparr>]\<rparr>"





text \<open>
  The three blocks of the rollback scenario of the README with the tables they leave,
  and two blocks in which a transaction spends an output of value 0 and creates none.
\<close>

definition block_readme_1 :: Block where
  "block_readme_1 =
     withBlockId \<lparr>block_id = [], height = 1,
       transactions = [\<lparr>tx_id = padTxId ''tx1'', inputs = [coinbaseInput],
                        outputs = [\<lparr>out_address = ''addr1'', out_value = 10\<rparr>]\<rparr>]\<rparr>"

definition block_readme_2 :: Block where
  "block_readme_2 =
     withBlockId \<lparr>block_id = [], height = 2,
       transactions = [\<lparr>tx_id = padTxId ''tx2'', inputs = [\<lparr>txId = padTxId ''tx1'', index = 0\<rparr>],
                        outputs = [\<lparr>out_address = ''addr2'', out_value = 4\<rparr>,
                                   \<lparr>out_address = ''addr3'', out_value = 6\<rparr>]\<rparr>]\<rparr>"

definition block_readme_3 :: Block where
  "block_readme_3 =
     withBlockId \<lparr>block_id = [], height = 3,
       transactions = [\<lparr>tx_id = padTxId ''tx3'', inputs = [\<lparr>txId = padTxId ''tx2'', index = 1\<rparr>],
                        outputs = [\<lparr>out_address = ''addr4'', out_value = 2\<rparr>,
                                   \<lparr>out_address = ''addr5'', out_value = 2\<rparr>,
                                   \<lparr>out_address = ''addr6'', out_value = 2\<rparr>]\<rparr>]\<rparr>"

definition store_readme_1 :: table where
  "store_readme_1 =
     [\<lparr>txid = padTxId ''tx1'', vout = 0, address = ''addr1'', amount = 10, scriptPubkey = [],
       blockHeight = 1, spent = False, spentTxid = None\<rparr>]"

definition store_readme_2 :: table where
  "store_readme_2 =
     [\<lparr>txid = padTxId ''tx1'', vout = 0, address = ''addr1'', amount = 10, scriptPubkey = [],
       blockHeight = 1, spent = True, spentTxid = Some (padTxId ''tx2'')\<rparr>,
      \<lparr>txid = padTxId ''tx2'', vout = 0, address = ''addr2'', amount = 4, scriptPubkey = [],
       blockHeight = 2, spent = False, spentTxid = None\<rparr>,
      \<lparr>txid = padTxId ''tx2'', vout = 1, address = ''addr3'', amount = 6, scriptPubkey = [],
       blockHeight = 2, spent = False, spentTxid = None\<rparr>]"

definition store_readme_3 :: table where
  "store_readme_3 =
     [\<lparr>txid = padTxId ''tx1'', vout = 0, address = ''addr1'', amount = 10, scriptPubkey = [],
       blockHeight = 1, spent = True, spentTxid = Some (padTxId ''tx2'')\<rparr>,
      \<lparr>txid = padTxId ''tx2'', vout = 0, address = ''addr2'', amount = 4, scriptPubkey = [],
       blockHeight = 2, spent = False, spentTxid = None\<rparr>,
      \<lparr>txid = padTxId ''tx2'', vout = 1, address = ''addr3'', amount = 6, scriptPubkey = [],
       blockHeight = 2, spent = True, spentTxid = Some (padTxId ''tx3'')\<rparr>,
      \<lparr>txid = padTxId ''tx3'', vout = 0, address = ''addr4'', amount = 2, scriptPubkey = [],
       blockHeight = 3, spent = False, spentTxid = None\<rparr>,
      \<lparr>txid = padTxId ''tx3'', vout = 1, address = ''addr5'', amount = 2, scriptPubkey = [],
       blockHeight = 3, spent = False, spentTxid = None\<rparr>,
      \<lparr>txid = padTxId ''tx3'', vout = 2, address = ''addr6'', amount = 2, scriptPubkey = [],
       blockHeight = 3, spent = False, spentTxid = None\<rparr>]"

definition block_zero_value :: Block where
  "block_zero_value =
     withBlockId \<lparr>block_id = [], height = 1,
       transactions = [\<lparr>tx_id = padTxId ''tx1'', inputs = [coinbaseInput],
                        outputs = [\<lparr>out_address = ''addr1'', out_value = 0\<rparr>]\<rparr>]\<rparr>"

definition block_outputless_spend :: Block where
  "block_outputless_spend =
     withBlockId \<lparr>block_id = [], height = 2,
       transactions = [\<lparr>tx_id = padTxId ''tx2'', inputs = [\<lparr>txId = padTxId ''tx1'', index = 0\<rparr>],
                        outputs = []\<rparr>,
                       \<lparr>tx_id = padTxId ''tx3'', inputs = [coinbaseInput],
                        outputs = [\<lparr>out_address = ''addr3'', out_value = 5\<rparr>]\<rparr>]\<rparr>"

definition store_zero_value :: table where
  "store_zero_value =
     [\<lparr>txid = padTxId ''tx1'', vout = 0, address = ''addr1'', amount = 0, scriptPubkey = [],
       blockHeight = 1, spent = False, spentTxid = None\<rparr>]"

definition store_outputless_spend :: table where
  "store_outputless_spend =
     [\<lparr>txid = padTxId ''tx1'', vout = 0, address = ''addr1'', amount = 0, scriptPubkey = [],
       blockHeight = 1, spent = True, spentTxid = Some (padTxId ''tx2'')\<rparr>,
      \<lparr>txid = padTxId ''tx3'', vout = 0, address = ''addr3'', amount = 5, scriptPubkey = [],
       blockHeight = 2, spent = False, spentTxid = None\<rparr>]"

section \<open>Auxiliary facts\<close>

subsection \<open>Columns of type char(64)\<close>

lemma rtrim_blanks: "t = rtrim t @ replicate (length t - length (rtrim t)) CHR '' ''"
proof -
  let ?P = "\<lambda>c. c = CHR '' ''"
  have "rev t = takeWhile ?P (rev t) @ dropWhile ?P (rev t)" by simp
  moreover have "takeWhile ?P (rev t) = replicate (length (takeWhile ?P (rev t))) CHR '' ''"
    by (rule replicate_length_same [symmetric]) (auto dest: set_takeWhileD)
  ultimately have "rev t = replicate (length (takeWhile ?P (rev t))) CHR '' '' @ dropWhile ?P (rev t)"
    by simp
  then have "rev (rev t) = rev (replicate (length (takeWhile ?P (rev t))) CHR '' '' @ dropWhile ?P (rev t))"
    by (rule arg_cong)
  then have e: "t = rtrim t @ replicate (length (takeWhile ?P (rev t))) CHR '' ''"
    by (simp add: rtrim_def)
  have "length t = length (rev t)" by simp
  also have "\<dots> = length (takeWhile ?P (rev t)) + length (dropWhile ?P (rev t))"
    by (metis length_append takeWhile_dropWhile_id)
  finally have "length (takeWhile ?P (rev t)) = length t - length (rtrim t)"
    by (simp add: rtrim_def)
  with e show ?thesis by simp
qed

lemma bpcharEq_same_length: "length a = length b \<Longrightarrow> bpcharEq a b \<longleftrightarrow> a = b"
proof
  assume l: "length a = length b" and "bpcharEq a b"
  then have r: "rtrim a = rtrim b" by (simp add: bpcharEq_def)
  have "a = rtrim a @ replicate (length a - length (rtrim a)) CHR '' ''" by (rule rtrim_blanks)
  also have "\<dots> = rtrim b @ replicate (length b - length (rtrim b)) CHR '' ''" by (simp add: r l)
  also have "\<dots> = b" by (rule rtrim_blanks [symmetric])
  finally show "a = b" .
next
  assume "a = b"
  then show "bpcharEq a b" by (simp add: bpcharEq_def)
qed

lemma bpcharEq_refl [simp]: "bpcharEq a a"
  by (simp add: bpcharEq_def)

lemma bpcharEq_sym: "bpcharEq a b \<longleftrightarrow> bpcharEq b a"
  by (auto simp: bpcharEq_def)

lemma bpcharEq_trans: "bpcharEq a b \<Longrightarrow> bpcharEq b c \<Longrightarrow> bpcharEq a c"
  by (simp add: bpcharEq_def)

lemma rtrim_append_blanks: "rtrim (t @ replicate n CHR '' '') = rtrim t"
  by (simp add: rtrim_def dropWhile_append3) (induction n; simp add: rtrim_def)

lemma length_rtrim: "length (rtrim t) \<le> length t"
  by (simp add: rtrim_def length_dropWhile_le [of _ "rev t", simplified])

lemma rtrim_idem: "rtrim (rtrim t) = rtrim t"
proof -
  have "rtrim t = rtrim (rtrim t @ replicate (length t - length (rtrim t)) CHR '' '')"
    using rtrim_blanks [of t] by simp
  then show ?thesis by (simp add: rtrim_append_blanks)
qed

lemma rtrim_take:
  assumes "length (rtrim t) \<le> n"
  shows "rtrim (take n t) = rtrim t"
proof -
  let ?k = "length t - length (rtrim t)"
  have t: "t = rtrim t @ replicate ?k CHR '' ''" by (rule rtrim_blanks)
  have "take n t = take n (rtrim t @ replicate ?k CHR '' '')" using t by simp
  also have "\<dots> = rtrim t @ replicate (min ?k (n - length (rtrim t))) CHR '' ''"
    using assms by simp
  finally show ?thesis by (simp add: rtrim_append_blanks rtrim_idem)
qed

lemma pgText_take: "pgText t \<Longrightarrow> pgText (take n t)"
  by (auto simp: pgText_def dest: in_set_takeD)

lemma char64_Some:
  assumes "char64 t = Some x"
  shows "length x = 64" and "pgText x" and "bpcharEq x t" and "pgText t"
proof -
  from assms have p: "pgText t" and l: "length (rtrim t) \<le> 64"
    and x: "x = take 64 (t @ replicate (64 - length t) CHR '' '')"
    by (auto simp: char64_def split: if_splits)
  show "pgText t" by (rule p)
  show "length x = 64" by (simp add: x)
  from p show "pgText x" by (auto simp: x pgText_def dest!: in_set_takeD)
  have "length (rtrim (t @ replicate (64 - length t) CHR '' '')) \<le> 64"
    using l by (simp add: rtrim_append_blanks)
  from rtrim_take [OF this] have "rtrim x = rtrim t" by (simp add: x rtrim_append_blanks)
  then show "bpcharEq x t" by (simp add: bpcharEq_def)
qed

lemma char64_id: "length t = 64 \<Longrightarrow> pgText t \<Longrightarrow> char64 t = Some t"
  using length_rtrim [of t] by (simp add: char64_def)

lemma varchar64_Some:
  "varchar64 t = Some x \<Longrightarrow> length x \<le> 64 \<and> pgText x"
  by (auto simp: varchar64_def pgText_take split: if_splits)

subsection \<open>Sums of doubles\<close>

lemma bitLength_le: "bitLength n \<le> k \<longleftrightarrow> n < 2 ^ k"
proof (induction n arbitrary: k rule: bitLength.induct)
  case (1 n)
  show ?case
  proof (cases "n = 0")
    case True
    then show ?thesis by (simp add: bitLength.simps [of 0])
  next
    case False
    show ?thesis
    proof (cases k)
      case 0
      with False show ?thesis by (simp add: bitLength.simps [of n])
    next
      case (Suc j)
      from 1 [OF False, of j] have "bitLength (n div 2) \<le> j \<longleftrightarrow> n div 2 < 2 ^ j" .
      moreover have "n div 2 < 2 ^ j \<longleftrightarrow> n < 2 ^ Suc j" by auto
      ultimately show ?thesis using False Suc by (simp add: bitLength.simps [of n])
    qed
  qed
qed

lemma bitLength_pow2: "bitLength (2 ^ k) = Suc k"
proof -
  have "bitLength (2 ^ k) \<le> Suc k" by (simp add: bitLength_le)
  moreover have "\<not> bitLength (2 ^ k) \<le> k" by (simp add: bitLength_le)
  ultimately show ?thesis by simp
qed

lemma nearestDouble_exact: "\<bar>x\<bar> \<le> 2 ^ 53 \<Longrightarrow> nearestDouble x = x"
proof -
  assume a: "\<bar>x\<bar> \<le> 2 ^ 53"
  show ?thesis
  proof (cases "\<bar>x\<bar> = 2 ^ 53")
    case False
    with a have "nat \<bar>x\<bar> < 2 ^ 53" by (simp add: nat_less_iff)
    then have "bitLength (nat \<bar>x\<bar>) \<le> 53" by (simp only: bitLength_le)
    then show ?thesis by (simp add: nearestDouble_def Let_def)
  next
    case True
    then have n: "nat \<bar>x\<bar> = 2 ^ 53" by (simp add: nat_eq_iff)
    have s: "sgn x * 2 ^ 53 = x" using True by (cases "x < 0") (simp_all add: sgn_if)
    have bl: "bitLength 9007199254740992 = 54"
      using bitLength_pow2 [of 53] by simp
    have "nearestDouble x = sgn x * 2 ^ 53"
      by (simp add: nearestDouble_def bl n Let_def)
    with s show ?thesis by simp
  qed
qed

lemma roundToDouble_exact: "\<bar>x\<bar> \<le> 2 ^ 53 \<Longrightarrow> roundToDouble x = Finite x"
proof -
  assume a: "\<bar>x\<bar> \<le> 2 ^ 53"
  have "(2::int) ^ 53 < 2 ^ 1024" by (rule power_strict_increasing) simp_all
  with a have "\<not> 2 ^ 1024 \<le> x" "\<not> x \<le> - (2 ^ 1024)" by linarith+
  with a show ?thesis by (simp add: roundToDouble_def nearestDouble_exact Let_def)
qed





subsection \<open>The tip and the validation results\<close>

lemma getMaxBlockHeight_UTXORepository [simp]: "getMaxBlockHeight UTXORepository s = Inr (tip s)"
  by (simp add: UTXORepository_def UTXORepository_getMaxBlockHeight_def tip_def)

lemma fold_max_blockHeight:
  "fold (\<lambda>r m. max m (blockHeight r)) us (m0::int) = Max (insert m0 (blockHeight ` set us))"
proof (induction us arbitrary: m0)
  case Nil
  then show ?case by simp
next
  case (Cons u us)
  have "Max (insert (max m0 (blockHeight u)) (blockHeight ` set us))
        = Max (insert m0 (insert (blockHeight u) (blockHeight ` set us)))"
    by (cases "set us = {}") (simp_all add: max.assoc)
  with Cons show ?case by simp
qed

lemma tip_Max: "tip s = (if s = [] then 0 else Max (blockHeight ` set s))"
  by (cases s) (simp_all add: tip_def fold_max_blockHeight)

lemma validateHeight_UTXORepository:
  "validateHeight UTXORepository h s =
     (if h \<noteq> tip s + 1 then Inl (InvalidBlockHeightError 400 (Some (tip s)) (Some h)) else Inr ())"
  by (simp add: validateHeight_def)

lemma validateCoinbaseTransactions_cases:
  "validateCoinbaseTransactions txs = Inr () \<or>
   validateCoinbaseTransactions txs = Inl (InvalidInputOutputSumError 400)"
  by (induction txs) auto

lemma validateSums_cases:
  "validateSums m txs = Inr () \<or> validateSums m txs = Inl (InvalidInputOutputSumError 400)"
  by (induction txs) (auto split: option.splits)

lemma validateRegularTransactions_cases:
  "validateRegularTransactions r txs s = Inr () \<or>
   validateRegularTransactions r txs s = Inl (InvalidInputOutputSumError 400)"
  using validateSums_cases
  by (auto simp: validateRegularTransactions_def Let_def split: sum.splits)

lemma validateInputOutputSum_cases:
  "validateInputOutputSum r b s = Inr () \<or>
   validateInputOutputSum r b s = Inl (InvalidInputOutputSumError 400)"
  using validateCoinbaseTransactions_cases [of "transactions b"]
        validateRegularTransactions_cases [of r "transactions b" s]
  by (auto simp: validateInputOutputSum_def split: sum.splits)

lemma markInputs_UTXORepository_error:
  "fst (markInputs UTXORepository tid is s) = Inr () \<or>
   fst (markInputs UTXORepository tid is s) = Inl (UTXONotFoundError 404) \<or>
   fst (markInputs UTXORepository tid is s) = Inl (DatabaseError 500)"
proof (induction "is" arbitrary: s)
  case Nil
  then show ?case by simp
next
  case (Cons i "is")
  show ?case
  proof (cases "markAsSpent UTXORepository (txId i) (index i) tid s")
    case (Inl e)
    then have "e = UTXONotFoundError 404 \<or> e = DatabaseError 500"
      by (auto simp: UTXORepository_def UTXORepository_markAsSpent_def
          split: list.splits if_splits option.splits)
    with Inl Cons [of s] show ?thesis by auto
  next
    case (Inr s')
    with Cons show ?thesis by simp
  qed
qed

lemma createOutputs_UTXORepository_error:
  "fst (createOutputs UTXORepository tid h i outs s) = Inr () \<or>
   fst (createOutputs UTXORepository tid h i outs s) = Inl (DatabaseError 500)"
proof (induction outs arbitrary: s i)
  case Nil
  then show ?case by simp
next
  case (Cons out outs)
  let ?u = "\<lparr>txid = tid, vout = i, address = out_address out, amount = out_value out,
              scriptPubkey = [], blockHeight = h, spent = False, spentTxid = None\<rparr>"
  show ?case
  proof (cases "insert_utxo UTXORepository ?u s")
    case (Inl e)
    then have "e = DatabaseError 500"
      by (auto simp: UTXORepository_def UTXORepository_insert_def split: if_splits option.splits)
    with Inl show ?thesis by simp
  next
    case (Inr s')
    with Cons show ?thesis by simp
  qed
qed

lemma processTransactions_UTXORepository_error:
  "fst (processTransactions UTXORepository h txs s) = Inr () \<or>
   fst (processTransactions UTXORepository h txs s) = Inl (UTXONotFoundError 404) \<or>
   fst (processTransactions UTXORepository h txs s) = Inl (DatabaseError 500)"
proof (induction txs arbitrary: s)
  case Nil
  then show ?case by simp
next
  case (Cons tx txs)
  obtain r1 s1 where m: "markInputs UTXORepository (tx_id tx) (inputs tx) s = (r1, s1)"
    by (cases "markInputs UTXORepository (tx_id tx) (inputs tx) s")
  obtain r2 s2 where c: "createOutputs UTXORepository (tx_id tx) h 0 (outputs tx) s1 = (r2, s2)"
    by (cases "createOutputs UTXORepository (tx_id tx) h 0 (outputs tx) s1")
  from markInputs_UTXORepository_error [of "tx_id tx" "inputs tx" s] m
  have r1: "r1 = Inr () \<or> r1 = Inl (UTXONotFoundError 404) \<or> r1 = Inl (DatabaseError 500)" by simp
  from createOutputs_UTXORepository_error [of "tx_id tx" h 0 "outputs tx" s1] c
  have r2: "r2 = Inr () \<or> r2 = Inl (DatabaseError 500)" by simp
  from r1 r2 m c Cons [of s2] show ?case by auto
qed

lemma processBlock_UTXORepository_eq:
  "processBlock UTXORepository block s =
     (if height block \<noteq> tip s + 1
      then (Inl (InvalidBlockHeightError 400 (Some (tip s)) (Some (height block))), s)
      else if validateInputOutputSum UTXORepository block s \<noteq> Inr ()
      then (Inl (InvalidInputOutputSumError 400), s)
      else if block_id block \<noteq> expectedHash block then (Inl (InvalidBlockIdError 400), s)
      else processTransactions UTXORepository (height block) (transactions block) s)"
  using validateInputOutputSum_cases [of UTXORepository block s]
  by (auto simp: processBlock_def validateHeight_UTXORepository validateBlockId_def)


subsection \<open>Shape of the digest\<close>

text \<open>
  The digest has 64 characters, all of them lowercase hexadecimal digits, whatever the
  compression computes; \<open>sha256hex_abc\<close> checks the model of the hash on the first test
  vector of FIPS 180-4.
\<close>

lemma sha256hex_abc:
  "sha256hex ''abc'' = ''ba7816bf8f01cfea414140de5dae2223b00361a396177a9cb410ff61f20015ad''"
  by code_simp

lemma length_round256: "length (round256 kw st) = length st"
  by (induction kw st rule: round256.induct) (simp_all add: Let_def)

lemma length_fold_round256: "length (fold round256 kws st) = length st"
  by (induction kws arbitrary: st) (simp_all add: length_round256)

lemma length_compress: "length (compress st ws) = length st"
  by (simp add: compress_def length_fold_round256)

lemma length_hashBlocks: "length (hashBlocks st ws) = length st"
proof (induction st ws rule: hashBlocks.induct)
  case (1 st ws)
  show ?case
  proof (cases "length ws < 16")
    case True
    then show ?thesis by (simp add: hashBlocks.simps [of st ws])
  next
    case False
    with 1 show ?thesis by (simp add: hashBlocks.simps [of st ws] length_compress)
  qed
qed

lemma hexChar_in: "d < 16 \<Longrightarrow> hexChar d \<in> set ''0123456789abcdef''"
  unfolding hexChar_def by (rule nth_mem) simp

lemma unat_nibble: "unat ((w :: 32 word) AND 0xF) < 16"
proof -
  have "w AND 0xF \<le> 0xF" by (rule word_and_le1)
  then have "unat (w AND 0xF) \<le> unat (0xF :: 32 word)" by (simp add: word_le_nat_alt)
  then show ?thesis by simp
qed

lemma length_hexWord: "length (hexWord w) = 8"
  by (simp add: hexWord_def)

lemma set_hexWord: "set (hexWord w) \<subseteq> set ''0123456789abcdef''"
  unfolding hexWord_def using hexChar_in [OF unat_nibble] by auto

lemma length_concat_const: "(\<And>x. x \<in> set xs \<Longrightarrow> length (f x) = n) \<Longrightarrow> length (concat (map f xs)) = n * length xs"
  by (induction xs) simp_all

lemma length_sha256hex: "length (sha256hex s) = 64"
proof -
  have "length (hashBlocks H256 (bigEndianWords (padMessage (utf8 s)))) = 8"
    by (simp add: length_hashBlocks H256_def)
  then show ?thesis
    by (simp add: sha256hex_def length_concat_const [where n = 8] length_hexWord)
qed

lemma set_sha256hex: "set (sha256hex s) \<subseteq> set ''0123456789abcdef''"
  unfolding sha256hex_def using set_hexWord by fastforce

lemma length_padTxId: "length (padTxId t) = 64"
  by (simp add: padTxId_def)

subsection \<open>Example blocks\<close>

lemma padTxId_pad64: "padTxId t = pad64 t"
  by (simp add: padTxId_def pad64_def)

lemma validateBlockId_iff:
  "validateBlockId block = Inl (InvalidBlockIdError 400) \<longleftrightarrow> block_id block \<noteq> expectedHash block"
  by (simp add: validateBlockId_def)

lemma block_bad_height_id: "block_id block_bad_height \<noteq> expectedHash block_bad_height"
proof
  assume "block_id block_bad_height = expectedHash block_bad_height"
  then have "length (block_id block_bad_height) = 64"
    by (simp add: expectedHash_def length_sha256hex)
  then show False by (simp add: block_bad_height_def)
qed

lemma block_bad_height_result:
  "processBlock UTXORepository block_bad_height [] =
     (Inl (InvalidBlockHeightError 400 (Some 0) (Some 5)), [])"
  by (simp add: processBlock_def validateHeight_def block_bad_height_def tip_def)

subsection \<open>Blocks that write nothing\<close>

lemma validateCoinbaseTransactions_empty_txs:
  "\<forall>tx\<in>set txs. inputs tx = [] \<and> outputs tx = [] \<Longrightarrow> validateCoinbaseTransactions txs = Inr ()"
  by (induction txs) (simp_all add: hasCoinbaseInputs_def hasRegularInputs_def outputSum_def)

lemma regularTransactions_empty_txs:
  "\<forall>tx\<in>set txs. inputs tx = [] \<and> outputs tx = [] \<Longrightarrow> regularTransactions txs = []"
  by (induction txs) (simp_all add: regularTransactions_def)

lemma processTransactions_empty_txs:
  "\<forall>tx\<in>set txs. inputs tx = [] \<and> outputs tx = [] \<Longrightarrow>
   processTransactions r h txs s = (Inr (), s)"
  by (induction txs) simp_all

subsection \<open>The apply phase as a list of writes\<close>

text \<open>
  \<open>eval_defs\<close> collects the definitions that evaluate the services on a given block and
  table. The loops of the apply phase run exactly the writes of \<open>blockWrites\<close>.
\<close>

lemmas eval_defs =
  processBlock_def validateHeight_def validateInputOutputSum_def validateRegularTransactions_def
  regularTransactions_def inputRefs_def hasCoinbaseInputs_def hasRegularInputs_def
  isCoinbaseInput_def outputSum_def validateBlockId_def expectedHash_def withBlockId_def
  buildUtxoMap_def utxoKey_def decimalString_def digits.simps digitChar_def padTxId_def
  UTXORepository_def UTXORepository_getMaxBlockHeight_def UTXORepository_insert_def
  UTXORepository_markAsSpent_def UTXORepository_findByTxIdsAndVouts_def
  UTXORepository_findUTXOsByBlockHeight_def UTXORepository_unmarkAsSpent_def
  UTXORepository_deleteUTXOsByBlockHeight_def coinbaseInput_def Let_def
  toRow_def char64_def varchar64_def pgText_def rtrim_def bpcharEq_def int4_def int8_def
  printedInteger_def shortestFrom.simps nearestDouble_def bitLength.simps roundToDouble_def
  blanks64_def

lemma processBlock_block_short_id:
  "processBlock UTXORepository block_short_id [] = (Inr (), store_short_id)"
  by (simp add: block_short_id_def store_short_id_def eval_defs)

lemma processBlock_block_coinbase:
  "processBlock UTXORepository block_coinbase [] = (Inr (), store_coinbase)"
  by (simp add: block_coinbase_def store_coinbase_def eval_defs)

lemma processBlock_block_double_spend:
  "processBlock UTXORepository block_double_spend store_coinbase =
     (Inl (UTXONotFoundError 404), store_double_spend)"
  by (simp add: block_double_spend_def store_coinbase_def store_double_spend_def eval_defs)

lemma processBlock_UTXORepository_down:
  "processBlock UTXORepository_down block_coinbase [] =
     (Inl (InvalidBlockHeightError 400 None None), [])"
  by (simp add: processBlock_def validateHeight_def UTXORepository_down_def)

lemma applyWrites_append:
  "applyWrites r (ws @ ws') s =
     (case applyWrites r ws s of (Inl e, s') \<Rightarrow> (Inl e, s') | (Inr _, s') \<Rightarrow> applyWrites r ws' s')"
  by (induction ws arbitrary: s) (simp_all split: sum.splits)

lemma markInputs_applyWrites: "markInputs r tid ins s = applyWrites r (inputWrites tid ins) s"
  by (induction ins arbitrary: s) (simp_all add: inputWrites_def split: sum.splits)

lemma createOutputs_applyWrites:
  "createOutputs r tid h i outs s = applyWrites r (outputWrites tid h i outs) s"
  by (induction outs arbitrary: s i) (simp_all split: sum.splits)

lemma processTransactions_applyWrites:
  "processTransactions r h txs s = applyWrites r (concat (map (transactionWrites h) txs)) s"
proof (induction txs arbitrary: s)
  case Nil
  then show ?case by simp
next
  case (Cons tx txs)
  show ?case
    by (simp add: transactionWrites_def applyWrites_append markInputs_applyWrites
        createOutputs_applyWrites Cons split: prod.splits sum.splits)
qed

lemma applyWrites_error_origin:
  "applyWrites r ws s = (Inl e, s') \<Longrightarrow> \<exists>w\<in>set ws. runWrite r w s' = Inl e"
  by (induction ws arbitrary: s) (auto split: sum.splits)

lemma outputWrites_member:
  "Insert u \<in> set (outputWrites tid h i outs) \<Longrightarrow>
     txid u = tid \<and> blockHeight u = h \<and> i \<le> vout u \<and> vout u < i + int (length outs)
     \<and> spent u = False \<and> spentTxid u = None \<and> scriptPubkey u = []
     \<and> address u = out_address (outs ! nat (vout u - i)) \<and> amount u = out_value (outs ! nat (vout u - i))"
proof (induction outs arbitrary: i)
  case Nil
  then show ?case by simp
next
  case (Cons out outs)
  from Cons.prems have "u = \<lparr>txid = tid, vout = i, address = out_address out, amount = out_value out,
             scriptPubkey = [], blockHeight = h, spent = False, spentTxid = None\<rparr>
     \<or> Insert u \<in> set (outputWrites tid h (i + 1) outs)" by auto
  then show ?case
  proof
    assume "u = \<lparr>txid = tid, vout = i, address = out_address out, amount = out_value out,
             scriptPubkey = [], blockHeight = h, spent = False, spentTxid = None\<rparr>"
    then show ?thesis by simp
  next
    assume "Insert u \<in> set (outputWrites tid h (i + 1) outs)"
    from Cons.IH [OF this] have ih: "txid u = tid" "blockHeight u = h" "i + 1 \<le> vout u"
      "vout u < i + 1 + int (length outs)" "spent u = False" "spentTxid u = None" "scriptPubkey u = []"
      "address u = out_address (outs ! nat (vout u - (i + 1)))"
      "amount u = out_value (outs ! nat (vout u - (i + 1)))" by auto
    from ih(3) have "nat (vout u - i) = Suc (nat (vout u - (i + 1)))" by simp
    with ih show ?thesis by simp
  qed
qed

lemma outputWrites_no_mark: "MarkAsSpent t v sp \<notin> set (outputWrites tid h i outs)"
  by (induction outs arbitrary: i) simp_all

lemma inputWrites_member:
  "w \<in> set (inputWrites tid ins) \<longleftrightarrow>
     (\<exists>i\<in>set ins. \<not> isCoinbaseInput (txId i) \<and> w = MarkAsSpent (txId i) (index i) tid)"
  by (auto simp: inputWrites_def)

lemma processBlock_Inr:
  "processBlock r block s = (Inr (), s') \<longleftrightarrow>
     validateHeight r (height block) s = Inr () \<and> validateInputOutputSum r block s = Inr ()
     \<and> validateBlockId block = Inr ()
     \<and> processTransactions r (height block) (transactions block) s = (Inr (), s')"
  by (auto simp: processBlock_def split: sum.splits)

lemma blockWrites_Insert:
  assumes "Insert u \<in> set (blockWrites block)"
  shows "\<exists>tx\<in>set (transactions block). txid u = tx_id tx \<and> 0 \<le> vout u
           \<and> vout u < int (length (outputs tx)) \<and> blockHeight u = height block
           \<and> address u = out_address (outputs tx ! nat (vout u))
           \<and> amount u = out_value (outputs tx ! nat (vout u))
           \<and> scriptPubkey u = [] \<and> spent u = False \<and> spentTxid u = None"
proof -
  from assms obtain tx where tx: "tx \<in> set (transactions block)"
    and "Insert u \<in> set (transactionWrites (height block) tx)"
    by (auto simp: blockWrites_def)
  then have "Insert u \<in> set (outputWrites (tx_id tx) (height block) 0 (outputs tx))"
    by (auto simp: transactionWrites_def inputWrites_def)
  from outputWrites_member [OF this] tx show ?thesis by auto
qed

lemma blockWrites_MarkAsSpent:
  assumes "MarkAsSpent t v sp \<in> set (blockWrites block)"
  shows "\<exists>tx\<in>set (transactions block). sp = tx_id tx
           \<and> (\<exists>i\<in>set (inputs tx). \<not> isCoinbaseInput (txId i) \<and> t = txId i \<and> v = index i)"
proof -
  from assms obtain tx where tx: "tx \<in> set (transactions block)"
    and "MarkAsSpent t v sp \<in> set (transactionWrites (height block) tx)"
    by (auto simp: blockWrites_def)
  then have "MarkAsSpent t v sp \<in> set (inputWrites (tx_id tx) (inputs tx))"
    by (auto simp: transactionWrites_def outputWrites_no_mark)
  with tx show ?thesis by (auto simp: inputWrites_member)
qed

lemma processBlock_block_spend:
  "processBlock UTXORepository block_spend store_coinbase = (Inr (), store_spend)"
  by (simp add: block_spend_def store_coinbase_def store_spend_def eval_defs)


lemma applyWrites_first_error:
  "applyWrites r ws s = (Inr (), s1) \<Longrightarrow> runWrite r w s1 = Inl e \<Longrightarrow>
     applyWrites r (ws @ w # ws') s = (Inl e, s1)"
  by (simp add: applyWrites_append)

subsection \<open>Short identifiers and great values\<close>

text \<open>
  The blocks with identifiers that do not have 64 characters and the blocks whose sums
  round, evaluated.
\<close>

lemma processBlock_block_spend_short_id_plain:
  "processBlock UTXORepository (block_spend_short_id ''tx1'') store_short_id
     = (Inl (InvalidInputOutputSumError 400), store_short_id)"
  by (simp add: block_spend_short_id_def store_short_id_def eval_defs)

lemma processBlock_block_spend_short_id_pad64:
  "processBlock UTXORepository (block_spend_short_id (pad64 ''tx1'')) store_short_id
     = (Inl (InvalidInputOutputSumError 400), store_short_id)"
  by (simp add: block_spend_short_id_def store_short_id_def pad64_def eval_defs)

lemma processBlock_block_spend_short_id_blanks:
  "processBlock UTXORepository (block_spend_short_id (blanks64 ''tx1'')) store_short_id
     = (Inr (), store_spend_short_id)"
  by (simp add: block_spend_short_id_def store_short_id_def store_spend_short_id_def eval_defs)

lemma processBlock_block_long_id:
  "processBlock UTXORepository block_long_id [] = (Inl (DatabaseError 500), [])"
  by (simp add: block_long_id_def eval_defs)


lemma processBlock_block_rounding:
  "fst (processBlock UTXORepository block_rounding []) = Inr ()"
  by (simp add: block_rounding_def eval_defs)



subsection \<open>Heights under ingestion and rollback\<close>

text \<open>
  A call of \<^verbatim>\<open>processBlock\<close> appends rows at the height tip plus one and changes no height;
  a rollback to \<open>t\<close> keeps the rows up to \<open>t\<close>. Both keep the heights contiguous.
\<close>

lemma toRow_Some:
  assumes "toRow u = Some row"
  shows "char64 (txid u) = Some (txid row)" and "vout row = vout u"
    and "blockHeight row = blockHeight u" and "spent row = spent u"
    and "spentTxid u = None \<Longrightarrow> spentTxid row = None" and "rowTyped row"
proof -
  from assms obtain t a sp where c: "char64 (txid u) = Some t" "varchar64 (address u) = Some a"
    "(case spentTxid u of None \<Rightarrow> Some None | Some x \<Rightarrow> map_option Some (char64 x)) = Some sp"
    and ok: "int4 (vout u)" "int8 (printedInteger (amount u))" "pgText (scriptPubkey u)"
      "int4 (blockHeight u)"
    and row: "row = u\<lparr>txid := t, address := a, amount := printedInteger (amount u), spentTxid := sp\<rparr>"
    by (auto simp: toRow_def split: option.splits if_splits)
  from c(1) row show "char64 (txid u) = Some (txid row)" by simp
  from row show "vout row = vout u" "blockHeight row = blockHeight u" "spent row = spent u"
    by simp_all
  from c(3) row show "spentTxid u = None \<Longrightarrow> spentTxid row = None" by auto
  have "case sp of None \<Rightarrow> True | Some x \<Rightarrow> length x = 64 \<and> pgText x"
    using c(3) char64_Some(1,2) by (auto split: option.splits)
  with char64_Some(1,2) [OF c(1)] varchar64_Some [OF c(2)] ok row
  show "rowTyped row" by (simp add: rowTyped_def)
qed

lemma markAsSpent_UTXORepository_Inr:
  "markAsSpent UTXORepository t v sp s = Inr s' \<Longrightarrow>
     \<exists>x. char64 sp = Some x
       \<and> s' = map (\<lambda>u. if bpcharEq (txid u) t \<and> vout u = v
                        then u\<lparr>spent := True, spentTxid := Some x\<rparr> else u) s
       \<and> (\<exists>u\<in>set s. bpcharEq (txid u) t \<and> vout u = v \<and> spent u = False)"
proof -
  assume a: "markAsSpent UTXORepository t v sp s = Inr s'"
  then obtain c cs x where f: "filter (\<lambda>u. bpcharEq (txid u) t \<and> vout u = v) s = c # cs"
    and "\<not> spent c" and x: "char64 sp = Some x"
    and s': "s' = map (\<lambda>u. if bpcharEq (txid u) t \<and> vout u = v
                            then u\<lparr>spent := True, spentTxid := Some x\<rparr> else u) s"
    by (auto simp: UTXORepository_def UTXORepository_markAsSpent_def
        split: list.splits if_splits option.splits)
  from f have "c \<in> set (filter (\<lambda>u. bpcharEq (txid u) t \<and> vout u = v) s)" by simp
  with \<open>\<not> spent c\<close> x s' show ?thesis by auto
qed

lemma insert_UTXORepository_Inr:
  "insert_utxo UTXORepository u s = Inr s' \<longleftrightarrow>
     (\<exists>row. toRow u = Some row \<and> s' = s @ [row]
        \<and> (txid row, vout row) \<notin> (\<lambda>r. (txid r, vout r)) ` set s)"
  by (auto simp: UTXORepository_def UTXORepository_insert_def list_ex_iff image_iff
      split: option.splits) metis

lemma runWrite_UTXORepository_heights:
  "runWrite UTXORepository w s = Inr s' \<Longrightarrow>
     map blockHeight s' = map blockHeight s @ (case w of Insert u \<Rightarrow> [blockHeight u] | _ \<Rightarrow> [])"
proof (cases w)
  case (MarkAsSpent t v sp)
  assume "runWrite UTXORepository w s = Inr s'"
  with MarkAsSpent have "markAsSpent UTXORepository t v sp s = Inr s'" by simp
  from markAsSpent_UTXORepository_Inr [OF this] MarkAsSpent show ?thesis
    by (auto simp: comp_def if_distrib [of blockHeight] cong: if_cong)
next
  case (Insert u)
  assume "runWrite UTXORepository w s = Inr s'"
  with Insert show ?thesis by (auto simp: insert_UTXORepository_Inr toRow_Some(3))
qed

lemma applyWrites_UTXORepository_heights:
  "applyWrites UTXORepository ws s = (r, s') \<Longrightarrow>
     \<exists>new. map blockHeight s' = map blockHeight s @ new
           \<and> set new \<subseteq> {blockHeight u | u. Insert u \<in> set ws}"
proof (induction ws arbitrary: s)
  case Nil
  then show ?case by simp
next
  case (Cons w ws)
  show ?case
  proof (cases "runWrite UTXORepository w s")
    case (Inl e)
    with Cons.prems show ?thesis by simp
  next
    case (Inr s1)
    with Cons.prems have "applyWrites UTXORepository ws s1 = (r, s')" by simp
    from Cons.IH [OF this] obtain new where
      n: "map blockHeight s' = map blockHeight s1 @ new"
      "set new \<subseteq> {blockHeight u | u. Insert u \<in> set ws}" by blast
    from runWrite_UTXORepository_heights [OF Inr] n
    have "map blockHeight s' = map blockHeight s @ ((case w of Insert u \<Rightarrow> [blockHeight u] | _ \<Rightarrow> []) @ new)"
      by simp
    moreover have "set ((case w of Insert u \<Rightarrow> [blockHeight u] | _ \<Rightarrow> []) @ new)
            \<subseteq> {blockHeight u | u. Insert u \<in> set (w # ws)}"
      using n(2) by (cases w) auto
    ultimately show ?thesis by blast
  qed
qed

lemma processBlock_UTXORepository_heights:
  assumes "processBlock UTXORepository block s = (r, s')"
  shows "\<exists>n. map blockHeight s' = map blockHeight s @ replicate n (tip s + 1)"
proof (cases "processBlock UTXORepository block s
              = processTransactions UTXORepository (height block) (transactions block) s
              \<and> height block = tip s + 1")
  case False
  then have "snd (processBlock UTXORepository block s) = s"
    by (simp add: processBlock_UTXORepository_eq split: if_splits)
  with assms have "s' = s" by simp
  then have "map blockHeight s' = map blockHeight s @ replicate 0 (tip s + 1)" by simp
  then show ?thesis by (rule exI)
next
  case True
  with assms have "applyWrites UTXORepository (blockWrites block) s = (r, s')"
    by (simp add: processTransactions_applyWrites blockWrites_def)
  from applyWrites_UTXORepository_heights [OF this] obtain new where
    n: "map blockHeight s' = map blockHeight s @ new"
    "set new \<subseteq> {blockHeight u | u. Insert u \<in> set (blockWrites block)}" by blast
  have "x = tip s + 1" if "x \<in> set new" for x
  proof -
    from that n(2) obtain u where "Insert u \<in> set (blockWrites block)" "x = blockHeight u"
      by blast
    with blockWrites_Insert [of u block] True show ?thesis by auto
  qed
  then have "new = replicate (length new) (tip s + 1)"
    by (simp add: replicate_length_same)
  with n(1) have "map blockHeight s' = map blockHeight s @ replicate (length new) (tip s + 1)"
    by simp
  then show ?thesis by (rule exI)
qed

lemma contiguous_tip_nonneg: "contiguous s \<Longrightarrow> 0 \<le> tip s"
proof (cases "s = []")
  case True
  then show ?thesis by (simp add: tip_def)
next
  case False
  assume "contiguous s"
  moreover from False have "blockHeight (hd s) \<in> blockHeight ` set s" by simp
  ultimately have "blockHeight (hd s) \<in> {1..tip s}" by (simp add: contiguous_def)
  then show ?thesis by simp
qed

lemma tip_cong:
  assumes "map blockHeight s' = map blockHeight s"
  shows "tip s' = tip s" and "blockHeight ` set s' = blockHeight ` set s"
proof -
  from assms have "set (map blockHeight s') = set (map blockHeight s)" by (rule arg_cong)
  then show i: "blockHeight ` set s' = blockHeight ` set s" by (simp only: set_map)
  from assms have "length (map blockHeight s') = length (map blockHeight s)" by (rule arg_cong)
  then have "length s' = 0 \<longleftrightarrow> length s = 0" by simp
  then have "s' = [] \<longleftrightarrow> s = []" by (simp only: length_0_conv)
  with i show "tip s' = tip s" by (simp add: tip_Max [of s'] tip_Max [of s])
qed

lemma contiguous_extend:
  assumes "contiguous s" and "map blockHeight s' = map blockHeight s @ replicate (Suc k) (tip s + 1)"
  shows "contiguous s'"
proof -
  from assms(2) have "set (map blockHeight s') = set (map blockHeight s @ replicate (Suc k) (tip s + 1))"
    by (rule arg_cong)
  then have h: "blockHeight ` set s' = insert (tip s + 1) (blockHeight ` set s)"
    by (simp only: set_map set_append set_replicate_Suc) simp
  from assms(2) have "length (map blockHeight s') = length (map blockHeight s @ replicate (Suc k) (tip s + 1))"
    by (rule arg_cong)
  then have ne: "s' \<noteq> []" by auto
  from assms(1) have c: "blockHeight ` set s = {1..tip s}" by (simp add: contiguous_def)
  from contiguous_tip_nonneg [OF assms(1)] have t0: "0 \<le> tip s" .
  have "Max (insert (tip s + 1) {1..tip s}) = tip s + 1"
  proof (rule Max_eqI)
    show "finite (insert (tip s + 1) {1..tip s})" by simp
    show "y \<le> tip s + 1" if "y \<in> insert (tip s + 1) {1..tip s}" for y
      using that by auto
    show "tip s + 1 \<in> insert (tip s + 1) {1..tip s}" by simp
  qed
  with h c ne have t: "tip s' = tip s + 1" by (simp add: tip_Max [of s'])
  from t0 have "insert (tip s + 1) {1..tip s} = {1..tip s + 1}"
    by (simp add: set_eq_iff) arith
  with h c t show ?thesis by (simp add: contiguous_def)
qed

lemma contiguous_processBlock:
  assumes "contiguous s"
  shows "contiguous (snd (processBlock UTXORepository block s))"
proof -
  obtain r s' where p: "processBlock UTXORepository block s = (r, s')"
    by (cases "processBlock UTXORepository block s")
  from processBlock_UTXORepository_heights [OF p] obtain n where
    n: "map blockHeight s' = map blockHeight s @ replicate n (tip s + 1)" by blast
  have "contiguous s'"
  proof (cases n)
    case 0
    with n have m: "map blockHeight s' = map blockHeight s" by simp
    from tip_cong [OF m] assms show ?thesis by (simp add: contiguous_def)
  next
    case (Suc k)
    with n assms show ?thesis by (simp only: contiguous_extend)
  qed
  with p show ?thesis by simp
qed

lemma txIdsToRollback_not_Nil: "xs \<noteq> [] \<Longrightarrow> txIdsToRollback xs \<noteq> []"
proof -
  have "set (fold (\<lambda>utxo acc. setAdd (txid utxo) acc) xs acc) = set acc \<union> txid ` set xs" for acc
    by (induction xs arbitrary: acc) (auto simp: setAdd_def)
  then have "set (txIdsToRollback xs) = txid ` set xs" by (simp add: txIdsToRollback_def)
  moreover assume "xs \<noteq> []"
  ultimately show ?thesis by (metis image_is_empty set_empty)
qed

lemma rollbackToHeight_UTXORepository_eq:
  "rollbackToHeight UTXORepository t s =
     (if t < 0 then (Inl (InvalidRollbackHeightError 400 (Some t) None), s)
      else if tip s < t then (Inl (InvalidRollbackHeightError 400 (Some t) (Some (tip s))), s)
      else if filter (\<lambda>u. t < blockHeight u) s = [] then (Inl (NoBlocksToRollbackError 400 t (tip s)), s)
      else if list_ex (\<lambda>x. \<not> pgText x) (txIdsToRollback (filter (\<lambda>u. t < blockHeight u) s))
      then (Inl (DatabaseError 500), s)
      else (Inr (), filter (\<lambda>u. \<not> t < blockHeight u)
                      (unmarkRows (txIdsToRollback (filter (\<lambda>u. t < blockHeight u) s)) s)))"
  using txIdsToRollback_not_Nil [of "filter (\<lambda>u. t < blockHeight u) s"]
  by (simp add: rollbackToHeight_def validateRollbackHeight_def Let_def)
     (simp add: UTXORepository_def UTXORepository_findUTXOsByBlockHeight_def
      UTXORepository_unmarkAsSpent_def UTXORepository_deleteUTXOsByBlockHeight_def
      UTXORepository_getMaxBlockHeight_def tip_def unmarkRows_def)

lemma map_blockHeight_unmarkRows: "map blockHeight (unmarkRows ids s) = map blockHeight s"
  by (induction s) (simp_all add: unmarkRows_def)

lemma rollbackToHeight_UTXORepository_state:
  "snd (rollbackToHeight UTXORepository t s) = s \<or>
   (0 \<le> t \<and> t \<le> tip s \<and>
    map blockHeight (snd (rollbackToHeight UTXORepository t s))
      = filter (\<lambda>h. \<not> t < h) (map blockHeight s))"
proof -
  have "map blockHeight (filter (\<lambda>u. \<not> t < blockHeight u) (unmarkRows ids s))
          = filter (\<lambda>h. \<not> t < h) (map blockHeight s)" for ids
    by (induction s) (simp_all add: unmarkRows_def)
  then show ?thesis
    by (simp add: rollbackToHeight_UTXORepository_eq)
qed

lemma contiguous_rollbackToHeight:
  assumes "contiguous s"
  shows "contiguous (snd (rollbackToHeight UTXORepository t s))"
proof -
  let ?s' = "snd (rollbackToHeight UTXORepository t s)"
  from rollbackToHeight_UTXORepository_state [of t s]
  show ?thesis
  proof
    assume "?s' = s"
    with assms show ?thesis by simp
  next
    assume a: "0 \<le> t \<and> t \<le> tip s \<and> map blockHeight ?s' = filter (\<lambda>h. \<not> t < h) (map blockHeight s)"
    then have "set (map blockHeight ?s') = set (filter (\<lambda>h. \<not> t < h) (map blockHeight s))"
      by simp
    then have "blockHeight ` set ?s' = {h \<in> blockHeight ` set s. \<not> t < h}"
      by (simp only: set_map set_filter)
    with assms have "blockHeight ` set ?s' = {h \<in> {1..tip s}. \<not> t < h}"
      by (simp add: contiguous_def)
    moreover from a have "{h \<in> {1..tip s}. \<not> t < h} = {1..t}"
      by (simp add: set_eq_iff) arith
    ultimately have h: "blockHeight ` set ?s' = {1..t}" by simp
    have "tip ?s' = t"
    proof (cases "?s' = []")
      case True
      with h have "{1..t} = {}" by simp
      with a have "t = 0" by simp
      with True show ?thesis by (simp add: tip_def)
    next
      case False
      then have "blockHeight (hd ?s') \<in> blockHeight ` set ?s'" by simp
      with h have "blockHeight (hd ?s') \<in> {1..t}" by simp
      then have "1 \<le> t" by simp
      then have "Max {1..t} = t" by (intro Max_eqI) simp_all
      with False h show ?thesis by (simp add: tip_Max [of ?s'])
    qed
    with h show ?thesis by (simp add: contiguous_def)
  qed
qed

lemma reachable_contiguous: "reachable s \<Longrightarrow> contiguous s"
proof (induction rule: reachable.induct)
  case reachable_empty
  show ?case by (simp add: contiguous_def tip_def)
next
  case (reachable_processBlock s block)
  then show ?case by (simp add: contiguous_processBlock)
next
  case (reachable_rollbackToHeight s targetHeight)
  then show ?case by (simp add: contiguous_rollbackToHeight)
qed

lemma reachable_store_spend: "reachable store_spend"
proof -
  from reachable_processBlock [OF reachable_empty, of block_coinbase]
  have "reachable store_coinbase"
    by (simp add: processBlock_block_coinbase)
  from reachable_processBlock [OF this, of block_spend]
  show ?thesis by (simp add: processBlock_block_spend)
qed

lemma tip_store_spend: "tip store_spend = 2"
  by (simp add: tip_def store_spend_def)

lemma no_victims_iff:
  assumes "0 \<le> t" "t \<le> tip s"
  shows "(\<forall>u\<in>set s. \<not> t < blockHeight u) \<longleftrightarrow> t = tip s \<or> s = []"
proof (cases "s = []")
  case True
  then show ?thesis by simp
next
  case False
  then have m: "tip s = Max (blockHeight ` set s)" by (simp add: tip_Max [of s])
  have f: "finite (blockHeight ` set s)" by simp
  from False have n: "blockHeight ` set s \<noteq> {}" by simp
  show ?thesis
  proof
    assume "\<forall>u\<in>set s. \<not> t < blockHeight u"
    then have "\<forall>h\<in>blockHeight ` set s. h \<le> t" by auto
    with f n have "Max (blockHeight ` set s) \<le> t" by (simp add: Max_le_iff)
    with m assms show "t = tip s \<or> s = []" by simp
  next
    assume "t = tip s \<or> s = []"
    with False m have t: "t = Max (blockHeight ` set s)" by simp
    show "\<forall>u\<in>set s. \<not> t < blockHeight u"
    proof
      fix u assume "u \<in> set s"
      then have "blockHeight u \<in> blockHeight ` set s" by simp
      with f have "blockHeight u \<le> Max (blockHeight ` set s)" by (rule Max_ge)
      with t show "\<not> t < blockHeight u" by simp
    qed
  qed
qed

subsection \<open>Keys and lookups of the conservation check\<close>

text \<open>
  The key \<^verbatim>\<open>`${txid}:${vout}`\<close> determines the pair it is built from, since the decimal
  string of a number holds no colon. Under the unique index the map built from the rows
  found gives, for every input that was looked up, the row the input resolves to.
\<close>

lemma digitChar_inj: "d < 10 \<Longrightarrow> d' < 10 \<Longrightarrow> digitChar d = digitChar d' \<longleftrightarrow> d = d'"
  unfolding digitChar_def by (rule nth_eq_iff_index_eq) simp_all

lemma digitChar_in: "d < 10 \<Longrightarrow> digitChar d \<in> set ''0123456789''"
  unfolding digitChar_def by (rule nth_mem) simp

lemma set_digits: "set (digits n) \<subseteq> set ''0123456789''"
proof (induction n rule: digits.induct)
  case (1 n)
  show ?case
  proof (cases "n < 10")
    case True
    with digitChar_in [of n] show ?thesis by (simp add: digits.simps [of n])
  next
    case False
    have "n mod 10 < 10" by simp
    from digitChar_in [OF this] 1 [OF False] False show ?thesis
      by (simp add: digits.simps [of n])
  qed
qed

lemma digits_not_Nil: "digits n \<noteq> []"
  by (simp add: digits.simps [of n])

lemma length_digits_ge2: "\<not> n < 10 \<Longrightarrow> 2 \<le> length (digits n)"
proof -
  assume "\<not> n < 10"
  then have "digits n = digits (n div 10) @ [digitChar (n mod 10)]" by (simp add: digits.simps [of n])
  moreover have "1 \<le> length (digits (n div 10))"
    using digits_not_Nil [of "n div 10"] by (cases "digits (n div 10)") simp_all
  ultimately show ?thesis by simp
qed

lemma digits_inj: "digits n = digits m \<Longrightarrow> n = m"
proof (induction n arbitrary: m rule: digits.induct)
  case (1 n)
  show ?case
  proof (cases "n < 10")
    case True
    then have n: "digits n = [digitChar n]" by (simp add: digits.simps [of n])
    show ?thesis
    proof (cases "m < 10")
      case True
      then have "digits m = [digitChar m]" by (simp add: digits.simps [of m])
      with n "1.prems" have "digitChar n = digitChar m" by simp
      with \<open>n < 10\<close> \<open>m < 10\<close> show ?thesis by (simp add: digitChar_inj)
    next
      case False
      from length_digits_ge2 [OF this] n "1.prems" show ?thesis by simp
    qed
  next
    case False
    then have n: "digits n = digits (n div 10) @ [digitChar (n mod 10)]"
      by (simp add: digits.simps [of n])
    show ?thesis
    proof (cases "m < 10")
      case True
      then have "digits m = [digitChar m]" by (simp add: digits.simps [of m])
      with length_digits_ge2 [OF False] "1.prems" show ?thesis by simp
    next
      case m: False
      then have "digits m = digits (m div 10) @ [digitChar (m mod 10)]"
        by (simp add: digits.simps [of m])
      with n "1.prems" have e: "digits (n div 10) = digits (m div 10)"
        "digitChar (n mod 10) = digitChar (m mod 10)" by simp_all
      from "1.IH" [OF False e(1)] have d: "n div 10 = m div 10" .
      have "n mod 10 < 10" "m mod 10 < 10" by simp_all
      with e(2) have "n mod 10 = m mod 10" by (simp add: digitChar_inj)
      with d show ?thesis by (metis div_mult_mod_eq)
    qed
  qed
qed

lemma decimalString_inj: "decimalString i = decimalString j \<Longrightarrow> i = j"
proof -
  assume a: "decimalString i = decimalString j"
  have minus: "CHR ''-'' # digits n \<noteq> digits m" for n m
  proof
    assume "CHR ''-'' # digits n = digits m"
    then have "CHR ''-'' \<in> set (digits m)" by (metis list.set_intros(1))
    with set_digits [of m] show False by auto
  qed
  show ?thesis
  proof (cases "i < 0")
    case True
    show ?thesis
    proof (cases "j < 0")
      case j: True
      with True a have "digits (nat (- i)) = digits (nat (- j))" by (simp add: decimalString_def)
      then have "nat (- i) = nat (- j)" by (rule digits_inj)
      with True j show ?thesis by simp
    next
      case False
      with True a minus [of "nat (- i)" "nat j"] show ?thesis by (simp add: decimalString_def)
    qed
  next
    case False
    show ?thesis
    proof (cases "j < 0")
      case True
      with False a minus [of "nat (- j)" "nat i"] show ?thesis by (simp add: decimalString_def)
    next
      case j: False
      with False a have "digits (nat i) = digits (nat j)" by (simp add: decimalString_def)
      then have "nat i = nat j" by (rule digits_inj)
      with False j show ?thesis by simp
    qed
  qed
qed

lemma colon_notin_decimalString: "CHR '':'' \<notin> set (decimalString i)"
  using set_digits [of "nat i"] set_digits [of "nat (- i)"]
  by (auto simp: decimalString_def)

lemma append_sep_eq:
  "x \<notin> set d \<Longrightarrow> x \<notin> set d' \<Longrightarrow> t @ x # d = t' @ x # d' \<Longrightarrow> t = t' \<and> d = d'"
proof (induction t arbitrary: t')
  case Nil
  show ?case
  proof (cases t')
    case Nil
    with Nil.prems show ?thesis by simp
  next
    case (Cons b t'')
    with Nil.prems have "d = t'' @ x # d'" by simp
    then have "x \<in> set d" by simp
    with Nil.prems show ?thesis by simp
  qed
next
  case (Cons a t1)
  show ?case
  proof (cases t')
    case Nil
    with Cons.prems have "d' = t1 @ x # d" by simp
    then have "x \<in> set d'" by simp
    with Cons.prems show ?thesis by simp
  next
    case c: (Cons b t'')
    with Cons.prems have "a = b" "t1 @ x # d = t'' @ x # d'" by simp_all
    with Cons.IH [of t''] Cons.prems c show ?thesis by simp
  qed
qed

lemma utxoKey_inj: "utxoKey t v = utxoKey t' v' \<longleftrightarrow> t = t' \<and> v = v'"
proof
  assume "utxoKey t v = utxoKey t' v'"
  then have "t @ CHR '':'' # decimalString v = t' @ CHR '':'' # decimalString v'"
    by (simp add: utxoKey_def)
  with colon_notin_decimalString [of v] colon_notin_decimalString [of v']
  have "t = t' \<and> decimalString v = decimalString v'" by (rule append_sep_eq)
  then show "t = t' \<and> v = v'" by (auto dest: decimalString_inj)
next
  assume "t = t' \<and> v = v'"
  then show "utxoKey t v = utxoKey t' v'" by simp
qed

lemma buildUtxoMap_snoc:
  "buildUtxoMap (us @ [u]) = (buildUtxoMap us)(utxoKey (txid u) (vout u) \<mapsto> u)"
  by (simp add: buildUtxoMap_def)

lemma buildUtxoMap_Some:
  "buildUtxoMap us k = Some u \<Longrightarrow> u \<in> set us \<and> k = utxoKey (txid u) (vout u)"
proof (induction us rule: rev_induct)
  case Nil
  then show ?case by (simp add: buildUtxoMap_def)
next
  case (snoc x xs)
  then show ?case by (auto simp: buildUtxoMap_snoc split: if_splits)
qed




lemma unique_keyD:
  "utxos_txid_vout_unique s \<Longrightarrow> x \<in> set s \<Longrightarrow> y \<in> set s \<Longrightarrow>
     txid x = txid y \<Longrightarrow> vout x = vout y \<Longrightarrow> x = y"
proof -
  assume "utxos_txid_vout_unique s" and xy: "x \<in> set s" "y \<in> set s"
    and k: "txid x = txid y" "vout x = vout y"
  then have "inj_on (\<lambda>u. (txid u, vout u)) (set s)"
    by (simp add: utxos_txid_vout_unique_def distinct_map)
  from inj_onD [OF this _ xy] k show ?thesis by simp
qed

lemma findByTxIdsAndVouts_UTXORepository:
  "findByTxIdsAndVouts UTXORepository refs s =
     (if refs \<noteq> [] \<and> (\<exists>(t, v)\<in>set refs. \<not> pgText t \<or> \<not> int4 v) then Inl (DatabaseError 500)
      else Inr (found refs s))"
  by (auto simp: UTXORepository_def UTXORepository_findByTxIdsAndVouts_def found_def list_ex_iff)

lemma set_found:
  "u \<in> set (found refs s) \<longleftrightarrow>
     u \<in> set s \<and> \<not> spent u \<and> (\<exists>(t, v)\<in>set refs. bpcharEq (txid u) t \<and> vout u = v)"
  by (auto simp: found_def list_ex_iff)



lemma lookup_None:
  assumes "resolveInput s i = None"
  shows "buildUtxoMap (found refs s) (utxoKey (txId i) (index i)) = None"
proof (rule ccontr)
  assume "buildUtxoMap (found refs s) (utxoKey (txId i) (index i)) \<noteq> None"
  then obtain u where "buildUtxoMap (found refs s) (utxoKey (txId i) (index i)) = Some u" by auto
  from buildUtxoMap_Some [OF this]
  have "u \<in> set s \<and> txid u = txId i \<and> vout u = index i \<and> \<not> spent u"
    by (auto simp: utxoKey_inj set_found)
  with assms show False by (auto simp: resolveInput_def find_None_iff)
qed


lemma sumInputs_eq:
  "sumInputs m ins acc =
     (if \<forall>i\<in>set ins. m (utxoKey (txId i) (index i)) \<noteq> None
      then Some (foldl jsAdd acc (map (\<lambda>i. case m (utxoKey (txId i) (index i)) of
                                             None \<Rightarrow> 0 | Some u \<Rightarrow> nearestDouble (amount u)) ins))
      else None)"
  by (induction ins arbitrary: acc) (auto split: option.splits)

lemma validateSums_Inr:
  "validateSums m txs = Inr () \<longleftrightarrow>
     (\<forall>tx\<in>set txs. (\<forall>i\<in>set (inputs tx). m (utxoKey (txId i) (index i)) \<noteq> None)
        \<and> jsSum (map (\<lambda>i. case m (utxoKey (txId i) (index i)) of
                             None \<Rightarrow> 0 | Some u \<Rightarrow> nearestDouble (amount u)) (inputs tx)) = outputSum tx)"
proof (induction txs)
  case Nil
  then show ?case by simp
next
  case (Cons tx txs)
  then show ?case by (simp add: sumInputs_eq jsSum_def)
qed

lemma validateCoinbaseTransactions_Inr:
  "validateCoinbaseTransactions txs = Inr () \<longleftrightarrow>
     (\<forall>tx\<in>set txs. \<not> (hasCoinbaseInputs tx \<and> hasRegularInputs tx)
        \<and> (inputs tx = [] \<longrightarrow> outputSum tx = Finite 0))"
proof (induction txs)
  case Nil
  then show ?case by simp
next
  case (Cons tx txs)
  have "inputs tx = [] \<Longrightarrow> \<not> hasCoinbaseInputs tx" by (simp add: hasCoinbaseInputs_def)
  with Cons show ?case by auto
qed



lemma hasRegularInputs_iff: "hasRegularInputs tx \<longleftrightarrow> (\<exists>i\<in>set (inputs tx). \<not> isCoinbaseInput (txId i))"
  by (simp add: hasRegularInputs_def list_ex_iff)


lemma set_regularTransactions:
  "tx \<in> set (regularTransactions txs) \<longleftrightarrow> tx \<in> set txs \<and> \<not> hasCoinbaseInputs tx \<and> inputs tx \<noteq> []"
  by (auto simp: regularTransactions_def)





lemma unresolved_input_rejected:
  assumes "tx \<in> set (transactions block)" "i \<in> set (inputs tx)"
    and "\<not> isCoinbaseInput (txId i)" "resolveInput s i = None"
  shows "validateInputOutputSum UTXORepository block s = Inl (InvalidInputOutputSumError 400)"
proof (rule ccontr)
  assume "validateInputOutputSum UTXORepository block s \<noteq> Inl (InvalidInputOutputSumError 400)"
  with validateInputOutputSum_cases [of UTXORepository block s]
  have "validateInputOutputSum UTXORepository block s = Inr ()" by blast
  then have cb: "validateCoinbaseTransactions (transactions block) = Inr ()"
    and rg: "validateRegularTransactions UTXORepository (transactions block) s = Inr ()"
    by (auto simp: validateInputOutputSum_def split: sum.splits)
  from assms(2,3) have r: "hasRegularInputs tx" by (auto simp: hasRegularInputs_iff)
  with cb assms(1) have "\<not> hasCoinbaseInputs tx" by (auto simp: validateCoinbaseTransactions_Inr)
  with assms(1,2) have reg: "tx \<in> set (regularTransactions (transactions block))"
    by (auto simp: set_regularTransactions)
  let ?reg = "regularTransactions (transactions block)"
  let ?m = "buildUtxoMap (found (inputRefs ?reg) s)"
  from reg have "?reg \<noteq> []" by auto
  with rg have "validateSums ?m ?reg = Inr ()"
    by (auto simp: validateRegularTransactions_def findByTxIdsAndVouts_UTXORepository Let_def
        split: if_splits)
  with reg assms(2) have "?m (utxoKey (txId i) (index i)) \<noteq> None"
    by (simp add: validateSums_Inr)
  with lookup_None [OF assms(4)] show False by simp
qed

lemma tip_store_coinbase: "tip store_coinbase = 1"
  by (simp add: tip_def store_coinbase_def)

lemma processBlock_block_sibling_spend_empty:
  "processBlock UTXORepository block_sibling_spend [] =
     (Inl (InvalidBlockHeightError 400 (Some 0) (Some 2)), [])"
  by (simp add: processBlock_def validateHeight_def block_sibling_spend_def withBlockId_def tip_def)

lemma processBlock_block_reused_id:
  "fst (processBlock UTXORepository block_reused_id store_coinbase) = Inl (DatabaseError 500)"
  by (simp add: block_reused_id_def store_coinbase_def eval_defs)

subsection \<open>Rollback after ingestion\<close>

text \<open>
  In a table whose rows have the types of their columns, identifiers have 64 characters,
  so that the comparisons of the store between them are equalities. One accepted
  transaction at a height above \<open>k\<close> marks rows and appends its outputs; when it has
  an output whenever it spends, \<open>restore k\<close> undoes all of it and \<open>storeInv\<close> is kept
  (\<open>tx_step\<close>). \<open>rollback_misses_outputless_spend\<close> evaluates the case left out:
  a transaction that spends an output of value 0 and creates none leaves no row, so the
  rollback of its block does not find its identifier and the output stays spent.
\<close>

lemma set_txIdsToRollback: "set (txIdsToRollback us) = txid ` set us"
proof -
  have "set (fold (\<lambda>utxo acc. setAdd (txid utxo) acc) us acc) = set acc \<union> txid ` set us" for acc
    by (induction us arbitrary: acc) (auto simp: setAdd_def)
  then show ?thesis by (simp add: txIdsToRollback_def)
qed

lemma tableTyped_iff: "tableTyped s \<longleftrightarrow> (\<forall>u\<in>set s. rowTyped u)"
  by (simp add: tableTyped_def list_all_iff)

lemma rowTyped_txid: "rowTyped u \<Longrightarrow> length (txid u) = 64 \<and> pgText (txid u)"
  by (simp add: rowTyped_def)

lemma rowTyped_spentTxid: "rowTyped u \<Longrightarrow> spentTxid u = Some y \<Longrightarrow> length y = 64 \<and> pgText y"
  by (simp add: rowTyped_def)

lemma unmarkRows_unmarkIf:
  assumes "tableTyped s" and "\<forall>x\<in>set ids. length x = 64"
  shows "unmarkRows ids s = map (unmarkIf (set ids)) s"
  unfolding unmarkRows_def
proof (rule map_cong [OF refl])
  fix u assume "u \<in> set s"
  with assms(1) have t: "rowTyped u" by (simp add: tableTyped_iff)
  have "list_ex (\<lambda>t. case spentTxid u of None \<Rightarrow> False | Some x \<Rightarrow> bpcharEq x t) ids
          \<longleftrightarrow> (\<exists>x\<in>set ids. spentTxid u = Some x)"
  proof (cases "spentTxid u")
    case None
    then show ?thesis by (simp add: list_ex_iff)
  next
    case (Some y)
    from rowTyped_spentTxid [OF t Some] have "length y = 64" by simp
    with assms(2) have "x \<in> set ids \<Longrightarrow> bpcharEq y x \<longleftrightarrow> y = x" for x
      by (simp add: bpcharEq_same_length)
    with Some show ?thesis by (auto simp: list_ex_iff)
  qed
  then show "(if spent u \<and> list_ex (\<lambda>t. case spentTxid u of None \<Rightarrow> False | Some x \<Rightarrow> bpcharEq x t) ids
              then u\<lparr>spent := False, spentTxid := None\<rparr> else u) = unmarkIf (set ids) u"
    by (simp add: unmarkIf_def)
qed

lemma blockHeight_unmarkIf [simp]: "blockHeight (unmarkIf I r) = blockHeight r"
  by (simp add: unmarkIf_def)

lemma restore_alt:
  assumes "tableTyped s"
  shows "restore k s =
     map (unmarkIf (txid ` {u \<in> set s. k < blockHeight u})) (filter (\<lambda>u. \<not> k < blockHeight u) s)"
proof -
  have "\<forall>x\<in>set (txIdsToRollback (filter (\<lambda>u. k < blockHeight u) s)). length x = 64"
    using assms by (auto simp: set_txIdsToRollback tableTyped_iff rowTyped_def)
  from unmarkRows_unmarkIf [OF assms this] show ?thesis
    by (simp add: restore_def set_txIdsToRollback filter_map comp_def)
qed

lemma rollbackToHeight_UTXORepository_typed:
  assumes "tableTyped s"
  shows "rollbackToHeight UTXORepository t s =
     (if t < 0 then (Inl (InvalidRollbackHeightError 400 (Some t) None), s)
      else if tip s < t then (Inl (InvalidRollbackHeightError 400 (Some t) (Some (tip s))), s)
      else if filter (\<lambda>u. t < blockHeight u) s = [] then (Inl (NoBlocksToRollbackError 400 t (tip s)), s)
      else (Inr (), restore t s))"
proof -
  have "\<not> list_ex (\<lambda>x. \<not> pgText x) (txIdsToRollback (filter (\<lambda>u. t < blockHeight u) s))"
    using assms by (auto simp: list_ex_iff set_txIdsToRollback tableTyped_iff rowTyped_def)
  then show ?thesis by (simp add: rollbackToHeight_UTXORepository_eq restore_def)
qed

lemma restore_at_tip:
  assumes "tip s \<le> k"
  shows "restore k s = s"
proof -
  have le: "blockHeight u \<le> k" if "u \<in> set s" for u
  proof -
    from that have "s \<noteq> []" by auto
    then have "tip s = Max (blockHeight ` set s)" by (simp add: tip_Max [of s])
    moreover from that have "blockHeight u \<le> Max (blockHeight ` set s)" by (simp add: Max_ge)
    ultimately show ?thesis using assms by simp
  qed
  then have e: "filter (\<lambda>u. k < blockHeight u) s = []" by (fastforce simp: filter_empty_conv)
  from le have f: "filter (\<lambda>u. \<not> k < blockHeight u) s = s" by (simp add: filter_id_conv not_less)
  have m: "unmarkRows [] s = s" by (simp add: unmarkRows_def map_idI)
  show ?thesis by (simp add: restore_def e txIdsToRollback_def m f)
qed

lemma rollbackToHeight_restore:
  "tableTyped s \<Longrightarrow> 0 \<le> k \<Longrightarrow> k \<le> tip s \<Longrightarrow> snd (rollbackToHeight UTXORepository k s) = restore k s"
proof -
  assume t: "tableTyped s" and k: "0 \<le> k" "k \<le> tip s"
  show ?thesis
  proof (cases "filter (\<lambda>u. k < blockHeight u) s = []")
    case True
    then have "restore k s = s"
      by (simp add: restore_def txIdsToRollback_def unmarkRows_def filter_empty_conv map_idI)
    with True k show ?thesis by (simp add: rollbackToHeight_UTXORepository_typed [OF t])
  next
    case False
    with k show ?thesis by (simp add: rollbackToHeight_UTXORepository_typed [OF t])
  qed
qed

lemma ingest_append:
  "ingest (xs @ ys) s = (case ingest xs s of None \<Rightarrow> None | Some s' \<Rightarrow> ingest ys s')"
  by (induction xs arbitrary: s) (auto split: prod.splits sum.splits)

lemma keys_markRows [simp]:
  "map (\<lambda>r. (txid r, vout r)) (markRows M x s) = map (\<lambda>r. (txid r, vout r)) s"
  by (induction s) (simp_all add: markRows_def)

lemma unique_markRows [simp]: "utxos_txid_vout_unique (markRows M x s) = utxos_txid_vout_unique s"
  by (simp add: utxos_txid_vout_unique_def)

lemma markRows_empty [simp]: "markRows {} x s = s"
  by (simp add: markRows_def)

lemma tableTyped_markRows:
  "tableTyped s \<Longrightarrow> length x = 64 \<Longrightarrow> pgText x \<Longrightarrow> tableTyped (markRows M x s)"
  by (auto simp: tableTyped_iff markRows_def rowTyped_def)

lemma markAsSpent_UTXORepository_markRows:
  assumes u: "utxos_txid_vout_unique s" and t: "tableTyped s"
    and m: "markAsSpent UTXORepository tI v sp s = Inr sa"
  shows "\<exists>x u0. char64 sp = Some x \<and> u0 \<in> set s \<and> vout u0 = v \<and> \<not> spent u0
           \<and> sa = markRows {(txid u0, v)} x s"
proof -
  from markAsSpent_UTXORepository_Inr [OF m] obtain x u0 where
    x: "char64 sp = Some x"
    and sa: "sa = map (\<lambda>u. if bpcharEq (txid u) tI \<and> vout u = v
                        then u\<lparr>spent := True, spentTxid := Some x\<rparr> else u) s"
    and u0: "u0 \<in> set s" "bpcharEq (txid u0) tI" "vout u0 = v" "\<not> spent u0" by auto
  have "(bpcharEq (txid r) tI \<and> vout r = v) \<longleftrightarrow> (txid r, vout r) \<in> {(txid u0, v)}" if "r \<in> set s" for r
  proof -
    from t that u0(1) have "length (txid r) = length (txid u0)"
      by (simp add: tableTyped_iff rowTyped_def)
    then have "bpcharEq (txid r) (txid u0) \<longleftrightarrow> txid r = txid u0" by (rule bpcharEq_same_length)
    moreover have "bpcharEq (txid r) tI \<longleftrightarrow> bpcharEq (txid r) (txid u0)"
      using u0(2) by (auto simp: bpcharEq_def)
    ultimately show ?thesis by auto
  qed
  then have "sa = markRows {(txid u0, v)} x s"
    unfolding sa markRows_def by (intro map_cong [OF refl]) simp
  with x u0 show ?thesis by blast
qed

lemma markInputs_UTXORepository_Inr:
  assumes "utxos_txid_vout_unique s" and "tableTyped s"
    and "markInputs UTXORepository tid ins s = (Inr (), s1)"
  shows "\<exists>M. (\<forall>r\<in>set s. (txid r, vout r) \<in> M \<longrightarrow> \<not> spent r)
           \<and> (M \<noteq> {} \<longrightarrow> (\<exists>i\<in>set ins. \<not> isCoinbaseInput (txId i)) \<and> char64 tid \<noteq> None)
           \<and> (M = {} \<longrightarrow> s1 = s)
           \<and> (\<forall>x. char64 tid = Some x \<longrightarrow> s1 = markRows M x s)"
  using assms
proof (induction ins arbitrary: s)
  case Nil
  then have "s1 = s" by simp
  then show ?case by (intro exI [of _ "{}"]) simp
next
  case (Cons i ins)
  show ?case
  proof (cases "isCoinbaseInput (txId i)")
    case True
    with Cons.prems have "markInputs UTXORepository tid ins s = (Inr (), s1)" by simp
    from Cons.IH [OF Cons.prems(1,2) this] show ?thesis by auto
  next
    case False
    with Cons.prems(3) obtain sa where
      m: "markAsSpent UTXORepository (txId i) (index i) tid s = Inr sa"
      and rest: "markInputs UTXORepository tid ins sa = (Inr (), s1)"
      by (auto split: sum.splits)
    from markAsSpent_UTXORepository_markRows [OF Cons.prems(1,2) m] obtain x u0 where
      x: "char64 tid = Some x" and u0: "u0 \<in> set s" "vout u0 = index i" "\<not> spent u0"
      and sa: "sa = markRows {(txid u0, index i)} x s" by blast
    let ?k = "(txid u0, index i)"
    have unspent: "\<not> spent r" if "r \<in> set s" "(txid r, vout r) = ?k" for r
      using unique_keyD [OF Cons.prems(1) that(1) u0(1)] that u0 by simp
    from Cons.prems(1) sa have ua: "utxos_txid_vout_unique sa" by simp
    from Cons.prems(2) sa char64_Some(1,2) [OF x] have ta: "tableTyped sa"
      by (simp add: tableTyped_markRows)
    from Cons.IH [OF ua ta rest] x obtain M' where
      un: "\<forall>r\<in>set sa. (txid r, vout r) \<in> M' \<longrightarrow> \<not> spent r"
      and s1: "s1 = markRows M' x sa" by blast
    have notin: "?k \<notin> M'"
    proof
      assume "?k \<in> M'"
      moreover have "u0\<lparr>spent := True, spentTxid := Some x\<rparr> \<in> set sa"
        using u0 by (auto simp: sa markRows_def image_iff intro!: bexI [of _ u0])
      ultimately show False using un u0 by force
    qed
    have un': "\<not> spent r" if "r \<in> set s" "(txid r, vout r) \<in> M'" for r
    proof -
      from that notin have "(txid r, vout r) \<noteq> ?k" by auto
      with that(1) have "r \<in> set sa" by (auto simp: sa markRows_def image_iff intro!: bexI [of _ r])
      with un that(2) show ?thesis by blast
    qed
    have e: "s1 = markRows (insert ?k M') x s"
      unfolding s1 sa markRows_def using notin by (auto simp: map_eq_conv)
    show ?thesis
    proof (intro exI [of _ "insert ?k M'"] conjI allI impI ballI)
      fix r assume "r \<in> set s" "(txid r, vout r) \<in> insert ?k M'"
      with unspent un' show "\<not> spent r" by auto
    next
      show "\<exists>j\<in>set (i # ins). \<not> isCoinbaseInput (txId j)" using False by auto
    next
      show "char64 tid \<noteq> None" using x by simp
    next
      assume "insert ?k M' = {}"
      then show "s1 = s" by simp
    next
      fix x' assume "char64 tid = Some x'"
      with x e show "s1 = markRows (insert ?k M') x' s" by simp
    qed
  qed
qed

lemma createOutputs_UTXORepository_Inr:
  assumes "createOutputs UTXORepository tid h i outs s = (Inr (), s2)"
  shows "\<exists>new. s2 = s @ new
           \<and> (\<forall>u\<in>set new. char64 tid = Some (txid u) \<and> blockHeight u = h \<and> \<not> spent u
                  \<and> spentTxid u = None \<and> rowTyped u)
           \<and> (outs \<noteq> [] \<longrightarrow> (\<exists>x. char64 tid = Some x \<and> (x, i) \<in> (\<lambda>r. (txid r, vout r)) ` set new))
           \<and> (outs = [] \<longrightarrow> new = [])
           \<and> (utxos_txid_vout_unique s \<longrightarrow> utxos_txid_vout_unique s2)"
  using assms
proof (induction outs arbitrary: s i)
  case Nil
  then have "s2 = s @ []" by simp
  then show ?case by (intro exI [of _ "[]"]) simp
next
  case (Cons out outs)
  let ?u = "\<lparr>txid = tid, vout = i, address = out_address out, amount = out_value out,
              scriptPubkey = [], blockHeight = h, spent = False, spentTxid = None\<rparr>"
  from Cons.prems obtain sa where
    ins: "insert_utxo UTXORepository ?u s = Inr sa"
    and rest: "createOutputs UTXORepository tid h (i + 1) outs sa = (Inr (), s2)"
    by (auto split: sum.splits)
  from ins obtain row where row: "toRow ?u = Some row" and sa: "sa = s @ [row]"
    and fresh: "(txid row, vout row) \<notin> (\<lambda>r. (txid r, vout r)) ` set s"
    unfolding insert_UTXORepository_Inr by blast
  from toRow_Some [OF row] have r: "char64 tid = Some (txid row)" "vout row = i"
    "blockHeight row = h" "\<not> spent row" "spentTxid row = None" "rowTyped row" by simp_all
  from Cons.IH [OF rest] obtain new where
    n: "s2 = sa @ new"
    "\<forall>u\<in>set new. char64 tid = Some (txid u) \<and> blockHeight u = h \<and> \<not> spent u
         \<and> spentTxid u = None \<and> rowTyped u"
    "utxos_txid_vout_unique sa \<longrightarrow> utxos_txid_vout_unique s2" by blast
  have u: "utxos_txid_vout_unique s \<longrightarrow> utxos_txid_vout_unique sa"
    using fresh by (simp add: sa utxos_txid_vout_unique_def)
  show ?case
  proof (intro exI [of _ "row # new"] conjI)
    show "s2 = s @ row # new" using n(1) sa by simp
    show "\<forall>u\<in>set (row # new). char64 tid = Some (txid u) \<and> blockHeight u = h \<and> \<not> spent u
            \<and> spentTxid u = None \<and> rowTyped u"
      using n(2) r by simp
    show "out # outs \<noteq> [] \<longrightarrow> (\<exists>x. char64 tid = Some x \<and> (x, i) \<in> (\<lambda>r. (txid r, vout r)) ` set (row # new))"
      using r(1,2) by (auto simp: image_iff)
    show "out # outs = [] \<longrightarrow> row # new = []" by simp
    show "utxos_txid_vout_unique s \<longrightarrow> utxos_txid_vout_unique s2" using u n(3) by blast
  qed
qed

lemma markRows_markIf: "markRows M x s = map (markIf M x) s"
  by (simp add: markRows_def markIf_def)

lemma markIf_fields [simp]:
  "txid (markIf M x r) = txid r" "vout (markIf M x r) = vout r"
  "blockHeight (markIf M x r) = blockHeight r"
  by (simp_all add: markIf_def)

lemma set_keys_markRows: "(\<lambda>r. (txid r, vout r)) ` set (markRows M x s) = (\<lambda>r. (txid r, vout r)) ` set s"
proof -
  have "set (map (\<lambda>r. (txid r, vout r)) (markRows M x s)) = set (map (\<lambda>r. (txid r, vout r)) s)"
    by (simp only: keys_markRows)
  then show ?thesis by (simp only: set_map)
qed

lemma txids_above_markRows:
  "txid ` {u \<in> set (markRows M x s). k < blockHeight u} = txid ` {u \<in> set s. k < blockHeight u}"
proof -
  have "set (markRows M x s) = markIf M x ` set s" by (simp add: markRows_markIf)
  then have "{u \<in> set (markRows M x s). k < blockHeight u} = markIf M x ` {u \<in> set s. k < blockHeight u}"
    by auto
  then show ?thesis by (simp add: image_image)
qed

lemma tx_step_row:
  assumes inv: "storeInv s" and r: "r \<in> set s"
    and unsp: "\<forall>r\<in>set s. (txid r, vout r) \<in> M \<longrightarrow> \<not> spent r"
    and disj: "X \<noteq> {} \<longrightarrow> (x, 0) \<notin> (\<lambda>r. (txid r, vout r)) ` set s"
    and X: "X \<subseteq> {x}"
    and spender: "(txid r, vout r) \<in> M \<longrightarrow> X = {x}"
  shows "unmarkIf (I \<union> X) (markIf M x r) = unmarkIf I r"
proof (cases "(txid r, vout r) \<in> M")
  case True
  with unsp r have a: "\<not> spent r" by blast
  with inv r have b: "spentTxid r = None" by (simp add: storeInv_def)
  from True spender have "x \<in> I \<union> X" by simp
  with True a b show ?thesis by (simp add: unmarkIf_def markIf_def)
next
  case False
  then have m: "markIf M x r = r" by (simp add: markIf_def)
  show ?thesis
  proof (cases "spent r")
    case False
    then show ?thesis by (simp add: m unmarkIf_def)
  next
    case True
    with inv r obtain y where y: "spentTxid r = Some y" "(y, 0) \<in> (\<lambda>r. (txid r, vout r)) ` set s"
      by (auto simp: storeInv_def)
    have "y \<notin> X"
    proof
      assume "y \<in> X"
      with X have "y = x" "X \<noteq> {}" by auto
      with disj y(2) show False by simp
    qed
    with y(1) show ?thesis by (simp add: m unmarkIf_def)
  qed
qed
lemma tx_step:
  assumes inv: "storeInv s" and kh: "k < h"
    and s2: "s2 = markRows M x s @ new"
    and xt: "length x = 64" "pgText x"
    and unsp: "\<forall>r\<in>set s. (txid r, vout r) \<in> M \<longrightarrow> \<not> spent r"
    and new: "\<forall>u\<in>set new. txid u = x \<and> blockHeight u = h \<and> \<not> spent u \<and> spentTxid u = None
                \<and> rowTyped u"
    and uniq: "utxos_txid_vout_unique s2"
    and zero: "new \<noteq> [] \<longrightarrow> (x, 0) \<in> (\<lambda>r. (txid r, vout r)) ` set new"
    and spender: "(\<exists>r\<in>set s. (txid r, vout r) \<in> M) \<longrightarrow> new \<noteq> []"
  shows "storeInv s2" and "restore k s2 = restore k s"
proof -
  let ?key = "\<lambda>r. (txid r, vout r)"
  let ?X = "if new = [] then {} else {x}"
  from inv have ts: "tableTyped s" by (simp add: storeInv_def)
  from uniq have "distinct (map ?key (markRows M x s) @ map ?key new)"
    by (simp add: s2 utxos_txid_vout_unique_def)
  then have dj: "?key ` set s \<inter> ?key ` set new = {}"
    by simp
  have disj: "?X \<noteq> {} \<longrightarrow> (x, 0) \<notin> ?key ` set s"
    using zero dj by auto
  have keys2: "?key ` set s2 = ?key ` set s \<union> ?key ` set new"
    by (simp add: s2 image_Un set_keys_markRows)
  have t2: "tableTyped s2"
    using tableTyped_markRows [OF ts xt] new by (auto simp: s2 tableTyped_iff)
  show "storeInv s2"
    unfolding storeInv_def
  proof (intro conjI ballI impI)
    show "tableTyped s2" by (rule t2)
  next
    show "utxos_txid_vout_unique s2" by (rule uniq)
  next
    fix u assume u: "u \<in> set s2" "\<not> spent u"
    from u(1) have "u \<in> set new \<or> (\<exists>r\<in>set s. u = markIf M x r)"
      by (auto simp: s2 markRows_markIf)
    then show "spentTxid u = None"
    proof
      assume "u \<in> set new"
      with new show ?thesis by blast
    next
      assume "\<exists>r\<in>set s. u = markIf M x r"
      then obtain r where r: "r \<in> set s" "u = markIf M x r" by blast
      with u(2) have "u = r" by (auto simp: markIf_def split: if_splits)
      with r(1) u(2) inv show ?thesis by (simp add: storeInv_def)
    qed
  next
    fix u assume u: "u \<in> set s2" "spent u"
    from u(1) have "u \<in> set new \<or> (\<exists>r\<in>set s. u = markIf M x r)"
      by (auto simp: s2 markRows_markIf)
    then show "\<exists>y. spentTxid u = Some y \<and> (y, 0) \<in> ?key ` set s2"
    proof
      assume "u \<in> set new"
      with new u(2) show ?thesis by blast
    next
      assume "\<exists>r\<in>set s. u = markIf M x r"
      then obtain r where r: "r \<in> set s" "u = markIf M x r" by blast
      show ?thesis
      proof (cases "(txid r, vout r) \<in> M")
        case True
        with r(1) spender zero have "(x, 0) \<in> ?key ` set new" by blast
        with True r(2) keys2 show ?thesis by (simp add: markIf_def)
      next
        case False
        with r(2) have "u = r" by (simp add: markIf_def)
        with r(1) u(2) inv obtain y where "spentTxid u = Some y" "(y, 0) \<in> ?key ` set s"
          by (auto simp: storeInv_def)
        with keys2 show ?thesis by blast
      qed
    qed
  qed
  have f: "filter (\<lambda>u. \<not> k < blockHeight u) s2 = map (markIf M x) (filter (\<lambda>u. \<not> k < blockHeight u) s)"
  proof -
    from new kh have "filter (\<lambda>u. \<not> k < blockHeight u) new = []"
      by (auto simp: filter_empty_conv)
    then show ?thesis
      by (simp add: s2 markRows_markIf filter_map comp_def)
  qed
  have i: "txid ` {u \<in> set s2. k < blockHeight u} = txid ` {u \<in> set s. k < blockHeight u} \<union> ?X"
  proof -
    have "{u \<in> set s2. k < blockHeight u}
            = {u \<in> set (markRows M x s). k < blockHeight u} \<union> {u \<in> set new. k < blockHeight u}"
      by (auto simp: s2)
    moreover from new kh have "{u \<in> set new. k < blockHeight u} = set new" by auto
    moreover from new have "txid ` set new = ?X" by (cases new) auto
    ultimately show ?thesis by (simp add: image_Un txids_above_markRows)
  qed
  have "map (unmarkIf (txid ` {u \<in> set s. k < blockHeight u} \<union> ?X))
            (map (markIf M x) (filter (\<lambda>u. \<not> k < blockHeight u) s))
        = map (unmarkIf (txid ` {u \<in> set s. k < blockHeight u})) (filter (\<lambda>u. \<not> k < blockHeight u) s)"
  proof (simp only: map_map comp_def, rule map_cong [OF refl])
    fix r assume "r \<in> set (filter (\<lambda>u. \<not> k < blockHeight u) s)"
    then have r: "r \<in> set s" by simp
    have sp: "(txid r, vout r) \<in> M \<longrightarrow> ?X = {x}"
      using spender r by auto
    show "unmarkIf (txid ` {u \<in> set s. k < blockHeight u} \<union> ?X) (markIf M x r)
            = unmarkIf (txid ` {u \<in> set s. k < blockHeight u}) r"
      by (rule tx_step_row [OF inv r unsp disj _ sp]) simp
  qed
  then show "restore k s2 = restore k s"
    by (simp only: restore_alt [OF ts] restore_alt [OF t2] f i)
qed

lemma processTransactions_Cons_Inr:
  "processTransactions r h (tx # txs) s = (Inr (), s') \<longleftrightarrow>
     (\<exists>s1 s2. markInputs r (tx_id tx) (inputs tx) s = (Inr (), s1)
        \<and> createOutputs r (tx_id tx) h 0 (outputs tx) s1 = (Inr (), s2)
        \<and> processTransactions r h txs s2 = (Inr (), s'))"
  by (auto split: prod.splits sum.splits)

lemma processTransactions_step:
  assumes "processTransactions UTXORepository h txs s = (Inr (), s')" and "storeInv s" and "k < h"
    and "\<forall>tx\<in>set txs. hasRegularInputs tx \<longrightarrow> outputs tx \<noteq> []"
  shows "storeInv s' \<and> restore k s' = restore k s"
  using assms
proof (induction txs arbitrary: s)
  case Nil
  then show ?case by simp
next
  case (Cons tx txs)
  let ?key = "\<lambda>r. (txid r, vout r)"
  from Cons.prems(1) obtain s1 s2 where
    m: "markInputs UTXORepository (tx_id tx) (inputs tx) s = (Inr (), s1)"
    and c: "createOutputs UTXORepository (tx_id tx) h 0 (outputs tx) s1 = (Inr (), s2)"
    and rest: "processTransactions UTXORepository h txs s2 = (Inr (), s')"
    unfolding processTransactions_Cons_Inr by blast
  from Cons.prems(2) have us: "utxos_txid_vout_unique s" and ts: "tableTyped s"
    by (simp_all add: storeInv_def)
  from markInputs_UTXORepository_Inr [OF us ts m] obtain M where
    unsp: "\<forall>r\<in>set s. (txid r, vout r) \<in> M \<longrightarrow> \<not> spent r"
    and reg: "M \<noteq> {} \<longrightarrow> (\<exists>i\<in>set (inputs tx). \<not> isCoinbaseInput (txId i))"
    and triv: "M = {} \<longrightarrow> s1 = s"
    and s1: "\<forall>x. char64 (tx_id tx) = Some x \<longrightarrow> s1 = markRows M x s" by blast
  from createOutputs_UTXORepository_Inr [OF c] obtain new where
    s2: "s2 = s1 @ new"
    and new: "\<forall>u\<in>set new. char64 (tx_id tx) = Some (txid u) \<and> blockHeight u = h \<and> \<not> spent u
                \<and> spentTxid u = None \<and> rowTyped u"
    and zero: "outputs tx \<noteq> [] \<longrightarrow> (\<exists>x. char64 (tx_id tx) = Some x \<and> (x, 0) \<in> ?key ` set new)"
    and none: "outputs tx = [] \<longrightarrow> new = []"
    and uq: "utxos_txid_vout_unique s1 \<longrightarrow> utxos_txid_vout_unique s2" by blast
  have "storeInv s2 \<and> restore k s2 = restore k s"
  proof (cases "outputs tx = []")
    case True
    with Cons.prems(4) have "\<not> hasRegularInputs tx" by auto
    with reg have "M = {}" by (auto simp: hasRegularInputs_def list_ex_iff)
    with triv none True s2 have "s2 = s" by simp
    with Cons.prems(2) show ?thesis by simp
  next
    case False
    with zero obtain x where x: "char64 (tx_id tx) = Some x" and z: "(x, 0) \<in> ?key ` set new"
      by blast
    from s1 x have e1: "s1 = markRows M x s" by simp
    with s2 have e: "s2 = markRows M x s @ new" by simp
    from us e1 uq have u2: "utxos_txid_vout_unique s2" by simp
    from new x have n: "\<forall>u\<in>set new. txid u = x \<and> blockHeight u = h \<and> \<not> spent u
          \<and> spentTxid u = None \<and> rowTyped u" by auto
    from z have ne: "new \<noteq> []" by auto
    from tx_step [OF Cons.prems(2,3) e char64_Some(1,2) [OF x] unsp n u2] z ne
    show ?thesis by blast
  qed
  then have i2: "storeInv s2" and r2: "restore k s2 = restore k s" by simp_all
  from Cons.prems(4) have "\<forall>tx\<in>set txs. hasRegularInputs tx \<longrightarrow> outputs tx \<noteq> []" by simp
  from Cons.IH [OF rest i2 Cons.prems(3) this] r2 show ?case by simp
qed

lemma tip_append_heights:
  assumes "map blockHeight s' = map blockHeight s @ replicate n (tip s + 1)"
  shows "tip s' = (if n = 0 then tip s else tip s + 1)"
proof (cases n)
  case 0
  with assms have "map blockHeight s' = map blockHeight s" by simp
  from tip_cong(1) [OF this] 0 show ?thesis by simp
next
  case (Suc m)
  from assms have "set (map blockHeight s') = set (map blockHeight s @ replicate n (tip s + 1))"
    by (rule arg_cong)
  with Suc have h: "blockHeight ` set s' = insert (tip s + 1) (blockHeight ` set s)"
    by (simp only: set_map set_append set_replicate_Suc) simp
  from assms have "length (map blockHeight s') = length (map blockHeight s @ replicate n (tip s + 1))"
    by (rule arg_cong)
  with Suc have ne: "s' \<noteq> []" by auto
  have "Max (insert (tip s + 1) (blockHeight ` set s)) = tip s + 1"
  proof (rule Max_eqI)
    show "finite (insert (tip s + 1) (blockHeight ` set s))" by simp
    show "tip s + 1 \<in> insert (tip s + 1) (blockHeight ` set s)" by simp
    fix y assume "y \<in> insert (tip s + 1) (blockHeight ` set s)"
    then show "y \<le> tip s + 1"
    proof
      assume "y = tip s + 1" then show ?thesis by simp
    next
      assume y: "y \<in> blockHeight ` set s"
      then have "s \<noteq> []" by auto
      then have "tip s = Max (blockHeight ` set s)" by (simp add: tip_Max [of s])
      moreover from y have "y \<le> Max (blockHeight ` set s)" by (simp add: Max_ge)
      ultimately show ?thesis by simp
    qed
  qed
  with h ne Suc show ?thesis by (simp add: tip_Max [of s'])
qed

lemma applyWrites_UTXORepository_Inr_heights:
  "applyWrites UTXORepository ws s = (Inr (), s') \<Longrightarrow>
     map blockHeight s' = map blockHeight s
        @ concat (map (\<lambda>w. case w of Insert u \<Rightarrow> [blockHeight u] | _ \<Rightarrow> []) ws)"
proof (induction ws arbitrary: s)
  case Nil
  then show ?case by simp
next
  case (Cons w ws)
  from Cons.prems obtain s1 where w: "runWrite UTXORepository w s = Inr s1"
    and rest: "applyWrites UTXORepository ws s1 = (Inr (), s')"
    by (auto split: sum.splits)
  from runWrite_UTXORepository_heights [OF w] Cons.IH [OF rest] show ?case by simp
qed

lemma blockWrites_has_Insert:
  assumes "createsOutput block"
  shows "\<exists>u. Insert u \<in> set (blockWrites block)"
proof -
  from assms obtain tx where tx: "tx \<in> set (transactions block)" "outputs tx \<noteq> []"
    by (auto simp: createsOutput_def list_ex_iff)
  then obtain out outs where "outputs tx = out # outs" by (cases "outputs tx") auto
  then have "\<exists>u. Insert u \<in> set (outputWrites (tx_id tx) (height block) 0 (outputs tx))" by auto
  with tx(1) show ?thesis
    by (auto simp: blockWrites_def transactionWrites_def)
qed

lemma processBlock_tip:
  assumes "processBlock UTXORepository block s = (Inr (), s')"
  shows "tip s \<le> tip s'" and "createsOutput block \<Longrightarrow> tip s' = tip s + 1"
proof -
  from processBlock_UTXORepository_heights [OF assms] obtain n where
    n: "map blockHeight s' = map blockHeight s @ replicate n (tip s + 1)" by blast
  from tip_append_heights [OF n] show "tip s \<le> tip s'" by simp
  assume co: "createsOutput block"
  from assms have "applyWrites UTXORepository (blockWrites block) s = (Inr (), s')"
    by (simp add: processBlock_Inr processTransactions_applyWrites blockWrites_def)
  from applyWrites_UTXORepository_Inr_heights [OF this]
  have "length s' = length s
          + length (concat (map (\<lambda>w. case w of Insert u \<Rightarrow> [blockHeight u] | _ \<Rightarrow> []) (blockWrites block)))"
    by (metis length_append length_map)
  moreover from blockWrites_has_Insert [OF co] obtain u where "Insert u \<in> set (blockWrites block)" ..
  then have "concat (map (\<lambda>w. case w of Insert u \<Rightarrow> [blockHeight u] | _ \<Rightarrow> []) (blockWrites block)) \<noteq> []"
    by (force simp: concat_eq_Nil_conv)
  ultimately have "length s < length s'" by simp
  moreover from n have "length s' = length s + n" by (metis length_append length_map length_replicate)
  ultimately have "n \<noteq> 0" by simp
  with tip_append_heights [OF n] show "tip s' = tip s + 1" by simp
qed

lemma processBlock_step:
  assumes "processBlock UTXORepository block s = (Inr (), s')" and "storeInv s" and "k \<le> tip s"
    and "spendersCreateOutput block"
  shows "storeInv s' \<and> restore k s' = restore k s"
proof -
  from assms(1) have h: "height block = tip s + 1"
    and p: "processTransactions UTXORepository (height block) (transactions block) s = (Inr (), s')"
    by (simp_all add: processBlock_Inr validateHeight_UTXORepository split: if_splits)
  from h assms(3) have "k < height block" by simp
  moreover from assms(4) have "\<forall>tx\<in>set (transactions block). hasRegularInputs tx \<longrightarrow> outputs tx \<noteq> []"
    by (simp add: spendersCreateOutput_def list_all_iff)
  ultimately show ?thesis using processTransactions_step [OF p assms(2)] by blast
qed

lemma ingest_Cons_Some:
  "ingest (block # blocks) s = Some s' \<longleftrightarrow>
     (\<exists>s1. processBlock UTXORepository block s = (Inr (), s1) \<and> ingest blocks s1 = Some s')"
  by (auto split: prod.splits sum.splits)

lemma ingest_restore:
  assumes "ingest blocks s = Some s'" and "storeInv s" and "k \<le> tip s"
    and "\<forall>b\<in>set blocks. spendersCreateOutput b"
  shows "storeInv s' \<and> restore k s' = restore k s"
  using assms
proof (induction blocks arbitrary: s)
  case Nil
  then show ?case by simp
next
  case (Cons b blocks)
  from Cons.prems(1) obtain s1 where
    p: "processBlock UTXORepository b s = (Inr (), s1)" and rest: "ingest blocks s1 = Some s'"
    unfolding ingest_Cons_Some by blast
  from Cons.prems(4) have sb: "spendersCreateOutput b" by simp
  from processBlock_step [OF p Cons.prems(2,3) sb]
  have i1: "storeInv s1" and r1: "restore k s1 = restore k s" by simp_all
  from processBlock_tip(1) [OF p] Cons.prems(3) have k1: "k \<le> tip s1" by simp
  from Cons.prems(4) have "\<forall>b\<in>set blocks. spendersCreateOutput b" by simp
  from Cons.IH [OF rest i1 k1 this] r1 show ?case by simp
qed

lemma ingest_tip:
  assumes "ingest blocks s = Some s'" and "\<forall>b\<in>set blocks. createsOutput b"
  shows "tip s' = tip s + int (length blocks)"
  using assms
proof (induction blocks arbitrary: s)
  case Nil
  then show ?case by simp
next
  case (Cons b blocks)
  from Cons.prems(1) obtain s1 where
    p: "processBlock UTXORepository b s = (Inr (), s1)" and rest: "ingest blocks s1 = Some s'"
    unfolding ingest_Cons_Some by blast
  from Cons.prems(2) have "createsOutput b" by simp
  from processBlock_tip(2) [OF p this] have "tip s1 = tip s + 1" .
  moreover from Cons.prems(2) have "\<forall>b\<in>set blocks. createsOutput b" by simp
  from Cons.IH [OF rest this] have "tip s' = tip s1 + int (length blocks)" .
  ultimately show ?case by simp
qed
lemma processBlock_block_readme_1:
  "processBlock UTXORepository block_readme_1 [] = (Inr (), store_readme_1)"
  by (simp add: block_readme_1_def store_readme_1_def eval_defs)

lemma processBlock_block_readme_2:
  "processBlock UTXORepository block_readme_2 store_readme_1 = (Inr (), store_readme_2)"
  by (simp add: block_readme_2_def store_readme_1_def store_readme_2_def eval_defs)

lemma processBlock_block_readme_3:
  "processBlock UTXORepository block_readme_3 store_readme_2 = (Inr (), store_readme_3)"
  by (simp add: block_readme_3_def store_readme_2_def store_readme_3_def eval_defs)

lemma ingest_readme:
  "ingest [block_readme_1, block_readme_2, block_readme_3] [] = Some store_readme_3"
  "ingest [block_readme_1, block_readme_2] [] = Some store_readme_2"
  by (simp_all add: processBlock_block_readme_1 processBlock_block_readme_2
      processBlock_block_readme_3)

lemma processBlock_block_empty_tx:
  "processBlock UTXORepository block_empty_tx [] = (Inr (), [])"
  by (simp add: block_empty_tx_def eval_defs)

lemma processBlock_block_zero_value:
  "processBlock UTXORepository block_zero_value [] = (Inr (), store_zero_value)"
  by (simp add: block_zero_value_def store_zero_value_def eval_defs)

lemma processBlock_block_outputless_spend:
  "processBlock UTXORepository block_outputless_spend store_zero_value = (Inr (), store_outputless_spend)"
  by (simp add: block_outputless_spend_def store_zero_value_def store_outputless_spend_def eval_defs)

lemma rollbackToHeight_store_outputless_spend:
  "rollbackToHeight UTXORepository 1 store_outputless_spend =
     (Inr (), [\<lparr>txid = padTxId ''tx1'', vout = 0, address = ''addr1'', amount = 0, scriptPubkey = [],
                 blockHeight = 1, spent = True, spentTxid = Some (padTxId ''tx2'')\<rparr>])"
  by (simp add: rollbackToHeight_def validateRollbackHeight_def txIdsToRollback_def setAdd_def
      store_outputless_spend_def eval_defs)

lemma rollback_misses_outputless_spend:
  "ingest [block_zero_value, block_outputless_spend] [] = Some store_outputless_spend
   \<and> ingest [block_zero_value] [] = Some store_zero_value
   \<and> fst (rollbackToHeight UTXORepository 1 store_outputless_spend) = Inr ()
   \<and> snd (rollbackToHeight UTXORepository 1 store_outputless_spend) \<noteq> store_zero_value
   \<and> map spent (snd (rollbackToHeight UTXORepository 1 store_outputless_spend)) = [True]
   \<and> map spent store_zero_value = [False]"
  by (simp add: processBlock_block_zero_value processBlock_block_outputless_spend
      rollbackToHeight_store_outputless_spend)
     (simp add: store_zero_value_def)

subsection \<open>Types and the unique index in the stores reached\<close>

text \<open>
  Every write keeps the types of the columns and the unique index, whether the call that
  makes it succeeds or fails later on, and so does a rollback.
\<close>

lemma runWrite_UTXORepository_typed:
  assumes "tableTyped s" and "utxos_txid_vout_unique s" and "runWrite UTXORepository w s = Inr s'"
  shows "tableTyped s' \<and> utxos_txid_vout_unique s'"
proof (cases w)
  case (MarkAsSpent t v sp)
  with assms(3) have "markAsSpent UTXORepository t v sp s = Inr s'" by simp
  from markAsSpent_UTXORepository_Inr [OF this] obtain x where x: "char64 sp = Some x"
    and s': "s' = map (\<lambda>u. if bpcharEq (txid u) t \<and> vout u = v
                            then u\<lparr>spent := True, spentTxid := Some x\<rparr> else u) s" by blast
  have "map (\<lambda>r. (txid r, vout r)) s' = map (\<lambda>r. (txid r, vout r)) s"
    unfolding s' by (induction s) simp_all
  with assms(2) have "utxos_txid_vout_unique s'" by (simp add: utxos_txid_vout_unique_def)
  moreover from assms(1) char64_Some(1,2) [OF x] have "tableTyped s'"
    by (auto simp: s' tableTyped_iff rowTyped_def)
  ultimately show ?thesis by simp
next
  case (Insert u)
  with assms(3) obtain row where row: "toRow u = Some row" and s': "s' = s @ [row]"
    and fresh: "(txid row, vout row) \<notin> (\<lambda>r. (txid r, vout r)) ` set s"
    by (auto simp: insert_UTXORepository_Inr)
  from assms(1) toRow_Some(6) [OF row] have "tableTyped s'" by (simp add: s' tableTyped_iff)
  moreover from assms(2) fresh have "utxos_txid_vout_unique s'"
    by (simp add: s' utxos_txid_vout_unique_def)
  ultimately show ?thesis by simp
qed

lemma applyWrites_UTXORepository_typed:
  "tableTyped s \<Longrightarrow> utxos_txid_vout_unique s \<Longrightarrow> applyWrites UTXORepository ws s = (r, s') \<Longrightarrow>
     tableTyped s' \<and> utxos_txid_vout_unique s'"
proof (induction ws arbitrary: s)
  case Nil
  then show ?case by simp
next
  case (Cons w ws)
  show ?case
  proof (cases "runWrite UTXORepository w s")
    case (Inl e)
    with Cons.prems show ?thesis by simp
  next
    case (Inr s1)
    from runWrite_UTXORepository_typed [OF Cons.prems(1,2) Inr]
    have "tableTyped s1" "utxos_txid_vout_unique s1" by simp_all
    moreover from Inr Cons.prems(3) have "applyWrites UTXORepository ws s1 = (r, s')" by simp
    ultimately show ?thesis by (rule Cons.IH)
  qed
qed

lemma processBlock_UTXORepository_typed:
  assumes "tableTyped s" and "utxos_txid_vout_unique s"
  shows "tableTyped (snd (processBlock UTXORepository block s))
         \<and> utxos_txid_vout_unique (snd (processBlock UTXORepository block s))"
proof (cases "processBlock UTXORepository block s
              = processTransactions UTXORepository (height block) (transactions block) s")
  case False
  then have "snd (processBlock UTXORepository block s) = s"
    by (simp add: processBlock_UTXORepository_eq split: if_splits)
  with assms show ?thesis by simp
next
  case True
  obtain r s' where p: "applyWrites UTXORepository (blockWrites block) s = (r, s')"
    by (cases "applyWrites UTXORepository (blockWrites block) s")
  with True have "snd (processBlock UTXORepository block s) = s'"
    by (simp add: processTransactions_applyWrites blockWrites_def)
  with applyWrites_UTXORepository_typed [OF assms p] show ?thesis by simp
qed

lemma unmarkRows_typed:
  assumes "tableTyped s" and "utxos_txid_vout_unique s"
  shows "tableTyped (filter P (unmarkRows ids s)) \<and> utxos_txid_vout_unique (filter P (unmarkRows ids s))"
proof -
  have "map (\<lambda>r. (txid r, vout r)) (unmarkRows ids s) = map (\<lambda>r. (txid r, vout r)) s"
    by (induction s) (simp_all add: unmarkRows_def)
  with assms(2) have "distinct (map (\<lambda>r. (txid r, vout r)) (unmarkRows ids s))"
    by (simp add: utxos_txid_vout_unique_def)
  then have "utxos_txid_vout_unique (filter P (unmarkRows ids s))"
    unfolding utxos_txid_vout_unique_def by (rule distinct_map_filter)
  moreover from assms(1) have "tableTyped (filter P (unmarkRows ids s))"
    by (auto simp: tableTyped_iff unmarkRows_def rowTyped_def)
  ultimately show ?thesis by simp
qed

lemma rollbackToHeight_UTXORepository_keeps_typed:
  assumes "tableTyped s" and "utxos_txid_vout_unique s"
  shows "tableTyped (snd (rollbackToHeight UTXORepository t s))
         \<and> utxos_txid_vout_unique (snd (rollbackToHeight UTXORepository t s))"
  using assms unmarkRows_typed [OF assms]
  by (simp add: rollbackToHeight_UTXORepository_eq)

lemma reachable_typed: "reachable s \<Longrightarrow> tableTyped s \<and> utxos_txid_vout_unique s"
proof (induction rule: reachable.induct)
  case reachable_empty
  show ?case by (simp add: tableTyped_def utxos_txid_vout_unique_def)
next
  case (reachable_processBlock s block)
  then show ?case by (simp add: processBlock_UTXORepository_typed)
next
  case (reachable_rollbackToHeight s targetHeight)
  then show ?case by (simp add: rollbackToHeight_UTXORepository_keeps_typed)
qed


section \<open>The claims\<close>

subsection \<open>C1: rollback inverts ingestion\<close>

text \<open>
  Claim C1, as the code has it. Let the blocks of a list be accepted in order, starting
  from the empty store, let every block create at least one output, so that the block
  at position \<open>i\<close> has height \<open>i\<close>, and let every transaction with an input that is not a
  coinbase input create at least one output. Then for every \<open>k\<close> up to the length of the
  list, \<^verbatim>\<open>rollbackToHeight(k)\<close> after the whole list leaves exactly the store that the
  first \<open>k\<close> blocks leave: the rows above \<open>k\<close> are gone and the rows that a removed block
  had marked spent are unspent again. The rollback succeeds when \<open>k\<close> is less than the
  length and fails with \<open>NoBlocksToRollback\<close>, changing nothing, when \<open>k\<close> is the length.
\<close>

theorem rollback_inverts_ingest:
  assumes "ingest blocks [] = Some sn"
    and "\<forall>b\<in>set blocks. createsOutput b \<and> spendersCreateOutput b"
    and "k \<le> length blocks"
  shows "\<exists>sk. ingest (take k blocks) [] = Some sk
           \<and> rollbackToHeight UTXORepository (int k) sn
               = (if k < length blocks then Inr ()
                  else Inl (NoBlocksToRollbackError 400 (int k) (int k)), sk)"
proof -
  have t0: "tip [] = 0" by (simp add: tip_def)
  have i0: "storeInv []" by (simp add: storeInv_def utxos_txid_vout_unique_def tableTyped_def)
  from assms(1) have "ingest (take k blocks @ drop k blocks) [] = Some sn" by simp
  then obtain sk where sk: "ingest (take k blocks) [] = Some sk"
    and sn: "ingest (drop k blocks) sk = Some sn"
    unfolding ingest_append by (auto split: option.splits)
  from assms(2) have ck: "\<forall>b\<in>set (take k blocks). createsOutput b"
    and sck: "\<forall>b\<in>set (take k blocks). spendersCreateOutput b"
    and cd: "\<forall>b\<in>set (drop k blocks). createsOutput b"
    and scd: "\<forall>b\<in>set (drop k blocks). spendersCreateOutput b"
    by (auto dest: in_set_takeD in_set_dropD)
  from ingest_tip [OF sk ck] assms(3) t0 have tk: "tip sk = int k" by simp
  from ingest_tip [OF sn cd] tk assms(3) have tn: "tip sn = int (length blocks)" by simp
  from ingest_restore [OF sk i0 _ sck, of 0] t0 have ik: "storeInv sk" by simp
  from ingest_restore [OF sn ik _ scd, of "int k"] tk
  have "storeInv sn" and rs: "restore (int k) sn = restore (int k) sk" by simp_all
  then have ty: "tableTyped sn" by (simp add: storeInv_def)
  note eq = rollbackToHeight_UTXORepository_typed [OF ty]
  have "restore (int k) sn = restore (int k) sk" by (rule rs)
  also from tk have "\<dots> = sk" by (simp add: restore_at_tip)
  finally have r: "restore (int k) sn = sk" .
  from tn assms(3) have le: "0 \<le> int k" "int k \<le> tip sn" by simp_all
  from rollbackToHeight_restore [OF ty le] r
  have st: "snd (rollbackToHeight UTXORepository (int k) sn) = sk" by simp
  have res: "fst (rollbackToHeight UTXORepository (int k) sn)
           = (if k < length blocks then Inr () else Inl (NoBlocksToRollbackError 400 (int k) (int k)))"
  proof (cases "k < length blocks")
    case True
    with tn t0 have "int k \<noteq> tip sn" "sn \<noteq> []" by auto
    with no_victims_iff [OF le] have "\<not> (\<forall>u\<in>set sn. \<not> int k < blockHeight u)" by simp
    then have "filter (\<lambda>u. int k < blockHeight u) sn \<noteq> []" by (simp add: filter_empty_conv)
    with le True show ?thesis by (simp add: eq)
  next
    case False
    with assms(3) tn have e: "int k = tip sn" by simp
    with no_victims_iff [OF le] have "\<forall>u\<in>set sn. \<not> int k < blockHeight u" by simp
    then have "filter (\<lambda>u. int k < blockHeight u) sn = []" by (simp add: filter_empty_conv)
    with le False e show ?thesis by (simp add: eq)
  qed
  from st res have "rollbackToHeight UTXORepository (int k) sn
               = (if k < length blocks then Inr ()
                  else Inl (NoBlocksToRollbackError 400 (int k) (int k)), sk)"
    by (metis prod.collapse)
  with sk show ?thesis by blast
qed

text \<open>
  The rollback scenario of the README: three blocks, then a rollback to height 2, which
  leaves the table of the first two blocks.
\<close>

theorem rollback_inverts_ingest_witness:
  "ingest [block_readme_1, block_readme_2, block_readme_3] [] = Some store_readme_3
   \<and> ingest [block_readme_1, block_readme_2] [] = Some store_readme_2
   \<and> rollbackToHeight UTXORepository 2 store_readme_3 = (Inr (), store_readme_2)"
proof -
  let ?bs = "[block_readme_1, block_readme_2, block_readme_3]"
  have c: "\<forall>b\<in>set ?bs. createsOutput b \<and> spendersCreateOutput b"
    by (simp add: createsOutput_def spendersCreateOutput_def block_readme_1_def block_readme_2_def
        block_readme_3_def withBlockId_def)
  have k: "2 \<le> length ?bs" by simp
  from rollback_inverts_ingest [OF ingest_readme(1) c k]
  obtain sk where "ingest (take 2 ?bs) [] = Some sk"
    "rollbackToHeight UTXORepository (int 2) store_readme_3 = (Inr (), sk)"
    by auto
  moreover have "take 2 ?bs = [block_readme_1, block_readme_2]" by (simp add: numeral_2_eq_2)
  ultimately have "rollbackToHeight UTXORepository 2 store_readme_3 = (Inr (), store_readme_2)"
    using ingest_readme(2) by simp
  with ingest_readme show ?thesis by simp
qed

text \<open>
  Claim C1 as it is worded does not hold. A block whose transaction has no input and no
  output is accepted at height 1 and writes nothing; the next block is accepted at
  height 1 too. After these two blocks, \<^verbatim>\<open>rollbackToHeight(1)\<close> finds nothing above height
  1 and leaves the table of both blocks, while the first block alone leaves the empty
  table.
\<close>

theorem rollback_by_position_counterexample:
  "ingest [block_empty_tx, block_coinbase] [] = Some store_coinbase
   \<and> ingest (take 1 [block_empty_tx, block_coinbase]) [] = Some []
   \<and> rollbackToHeight UTXORepository 1 store_coinbase
        = (Inl (NoBlocksToRollbackError 400 1 1), store_coinbase)
   \<and> store_coinbase \<noteq> []"
proof -
  have a: "ingest [block_empty_tx, block_coinbase] [] = Some store_coinbase"
    by (simp add: processBlock_block_empty_tx processBlock_block_coinbase)
  have b: "ingest (take 1 [block_empty_tx, block_coinbase]) [] = Some []"
    by (simp add: processBlock_block_empty_tx)
  have "filter (\<lambda>u. 1 < blockHeight u) store_coinbase = []"
    by (simp add: store_coinbase_def)
  then have c: "rollbackToHeight UTXORepository 1 store_coinbase
        = (Inl (NoBlocksToRollbackError 400 1 1), store_coinbase)"
    by (simp add: rollbackToHeight_UTXORepository_eq tip_store_coinbase)
  have d: "store_coinbase \<noteq> []" by (simp add: store_coinbase_def)
  from a b c d show ?thesis by blast
qed

subsection \<open>C2: the identifiers written to the store\<close>

text \<open>
  Claim C2 says that every store write uses the identifier padded to 64 characters with
  zeros. \<^verbatim>\<open>processBlock\<close> hands \<^verbatim>\<open>transaction.id\<close> to \<^verbatim>\<open>insert\<close> and to \<^verbatim>\<open>markAsSpent\<close> as it
  is received; \<open>padTxId\<close>, which its comment calls required by the database schema, is
  applied for the digest of the block identifier only. The block whose transaction is
  called \<^verbatim>\<open>tx1\<close> is accepted and leaves a row whose \<^verbatim>\<open>txid\<close> is \<^verbatim>\<open>tx1\<close> filled with blanks
  by the column, not \<open>pad64\<close> of it. A block that spends that output is rejected with
  \<open>InvalidInputOutputSum\<close> when it names the output by \<^verbatim>\<open>tx1\<close>, since the key built from
  the row read back differs, and when it names it by \<open>pad64\<close> of \<^verbatim>\<open>tx1\<close>, since no row is
  found; it is accepted when it names it by \<^verbatim>\<open>tx1\<close> filled with blanks, and then stamps
  \<^verbatim>\<open>tx2\<close> filled with blanks. A block that creates an output under an identifier of 65
  characters passes the three checks, its digest taking the first 64, and fails at the
  insertion with a \<open>DatabaseError\<close>.
\<close>

theorem short_id_written_unpadded:
  "processBlock UTXORepository block_short_id [] = (Inr (), store_short_id)
   \<and> map txid store_short_id = [blanks64 ''tx1'']
   \<and> blanks64 ''tx1'' \<noteq> pad64 ''tx1''
   \<and> processBlock UTXORepository (block_spend_short_id ''tx1'') store_short_id
        = (Inl (InvalidInputOutputSumError 400), store_short_id)
   \<and> processBlock UTXORepository (block_spend_short_id (pad64 ''tx1'')) store_short_id
        = (Inl (InvalidInputOutputSumError 400), store_short_id)
   \<and> processBlock UTXORepository (block_spend_short_id (blanks64 ''tx1'')) store_short_id
        = (Inr (), store_spend_short_id)
   \<and> map spentTxid store_spend_short_id = [Some (blanks64 ''tx2''), None]
   \<and> blanks64 ''tx2'' \<noteq> pad64 ''tx2''
   \<and> processBlock UTXORepository block_long_id [] = (Inl (DatabaseError 500), [])"
  by (simp add: processBlock_block_short_id processBlock_block_spend_short_id_plain
      processBlock_block_spend_short_id_pad64 processBlock_block_spend_short_id_blanks
      processBlock_block_long_id)
     (simp add: store_short_id_def store_spend_short_id_def blanks64_def pad64_def)

subsection \<open>C3: the conservation check\<close>




subsection \<open>C4: the block identity check\<close>

text \<open>
  Claim C4, as the code has it. The expected identifier is the SHA-256 digest, in 64
  lowercase hexadecimal digits, of the decimal height followed by the identifiers of the
  transactions in order, each padded by \<open>pad64\<close> to exactly 64 characters. The identity
  check fails with \<open>InvalidBlockId\<close> exactly when the block's identifier differs from
  it; \<^verbatim>\<open>processBlock\<close> fails with \<open>InvalidBlockId\<close> exactly when, in addition, the height
  check and the conservation check have passed, since they come first.
\<close>

theorem block_identity_check:
  "expectedHash block =
     sha256hex (decimalString (height block) @ concat (map (\<lambda>tx. pad64 (tx_id tx)) (transactions block)))
   \<and> length (pad64 t) = 64
   \<and> length (expectedHash block) = 64
   \<and> set (expectedHash block) \<subseteq> set ''0123456789abcdef''
   \<and> (validateBlockId block = Inl (InvalidBlockIdError 400) \<longleftrightarrow> block_id block \<noteq> expectedHash block)
   \<and> (fst (processBlock UTXORepository block s) = Inl (InvalidBlockIdError 400) \<longleftrightarrow>
        height block = tip s + 1 \<and> validateInputOutputSum UTXORepository block s = Inr ()
        \<and> block_id block \<noteq> expectedHash block)"
proof -
  have a: "expectedHash block =
     sha256hex (decimalString (height block) @ concat (map (\<lambda>tx. pad64 (tx_id tx)) (transactions block)))"
    by (simp add: expectedHash_def padTxId_pad64)
  have b: "length (pad64 t) = 64"
    using length_padTxId [of t] by (simp add: padTxId_pad64)
  have c: "length (expectedHash block) = 64"
    by (simp add: expectedHash_def length_sha256hex)
  have d: "set (expectedHash block) \<subseteq> set ''0123456789abcdef''"
    unfolding expectedHash_def by (rule set_sha256hex)
  have e: "fst (processBlock UTXORepository block s) = Inl (InvalidBlockIdError 400) \<longleftrightarrow>
        height block = tip s + 1 \<and> validateInputOutputSum UTXORepository block s = Inr ()
        \<and> block_id block \<noteq> expectedHash block"
    using processTransactions_UTXORepository_error [of "height block" "transactions block" s]
    by (auto simp: processBlock_UTXORepository_eq)
  from a b c d e validateBlockId_iff show ?thesis by blast
qed

text \<open>
  A block at the tip with no transaction and an empty identifier is refused with
  \<open>InvalidBlockId\<close>.
\<close>

theorem block_identity_check_witness:
  "fst (processBlock UTXORepository block_bad_id []) = Inl (InvalidBlockIdError 400)"
proof -
  have h: "height block_bad_id = tip [] + 1"
    by (simp add: block_bad_id_def tip_def)
  have v: "validateInputOutputSum UTXORepository block_bad_id [] = Inr ()"
    by (simp add: block_bad_id_def validateInputOutputSum_def validateRegularTransactions_def
        regularTransactions_def)
  have "length (expectedHash block_bad_id) = 64"
    using block_identity_check [of block_bad_id] by blast
  then have i: "block_id block_bad_id \<noteq> expectedHash block_bad_id"
    by (auto simp: block_bad_id_def)
  from h v i block_identity_check [of block_bad_id "[]" "[]"] show ?thesis by blast
qed

text \<open>
  Claim C4 as it is worded does not hold of \<^verbatim>\<open>processBlock\<close>: a block whose identifier
  differs from the expected one, submitted at height 5 to the empty store, fails with
  \<open>InvalidBlockHeight\<close>, not with \<open>InvalidBlockId\<close>.
\<close>

theorem block_identity_exactly_when_counterexample:
  "\<not> (fst (processBlock UTXORepository block_bad_height []) = Inl (InvalidBlockIdError 400)
       \<longleftrightarrow> block_id block_bad_height \<noteq> expectedHash block_bad_height)"
  using block_bad_height_id by (simp add: block_bad_height_result)

subsection \<open>C5: outputs of the same block are not visible\<close>

text \<open>
  Claim C5, as the code has it. The conservation check looks inputs up in the store as
  it is before the block is applied. So a block that passes the height check and in
  which a transaction has an input, not a coinbase input, that names an output of a
  transaction of the same block is rejected with \<open>InvalidInputOutputSum\<close>, the store
  staying as it was, provided the store does not already hold an unspent row under that
  \<^verbatim>\<open>(txId, index)\<close>. The rejection needs only the input that does not resolve.
\<close>

theorem sibling_output_not_visible:
  assumes "height block = tip s + 1"
    and "creator \<in> set (transactions block)" and "spender \<in> set (transactions block)"
    and "i \<in> set (inputs spender)" and "\<not> isCoinbaseInput (txId i)"
    and "txId i = tx_id creator" and "0 \<le> index i" and "index i < int (length (outputs creator))"
    and "resolveInput s i = None"
  shows "validateInputOutputSum UTXORepository block s = Inl (InvalidInputOutputSumError 400)
         \<and> processBlock UTXORepository block s = (Inl (InvalidInputOutputSumError 400), s)"
proof -
  from unresolved_input_rejected [OF assms(3,4,5,9)]
  have v: "validateInputOutputSum UTXORepository block s = Inl (InvalidInputOutputSumError 400)" .
  with assms(1) show ?thesis by (simp add: processBlock_UTXORepository_eq)
qed

text \<open>
  The block of the test: at height 2, on the table that holds output 0 of \<^verbatim>\<open>tx1\<close>, the
  transaction \<^verbatim>\<open>tx3\<close> spends output 0 of \<^verbatim>\<open>tx2\<close> of the same block.
\<close>

theorem sibling_output_not_visible_witness:
  "processBlock UTXORepository block_sibling_spend store_coinbase
     = (Inl (InvalidInputOutputSumError 400), store_coinbase)"
proof -
  let ?creator = "\<lparr>tx_id = padTxId ''tx2'', inputs = [\<lparr>txId = padTxId ''tx1'', index = 0\<rparr>],
           outputs = [\<lparr>out_address = ''addr2'', out_value = 100\<rparr>]\<rparr>"
  let ?spender = "\<lparr>tx_id = padTxId ''tx3'', inputs = [\<lparr>txId = padTxId ''tx2'', index = 0\<rparr>],
           outputs = [\<lparr>out_address = ''addr3'', out_value = 100\<rparr>]\<rparr>"
  let ?i = "\<lparr>txId = padTxId ''tx2'', index = 0\<rparr>"
  have 1: "height block_sibling_spend = tip store_coinbase + 1"
    by (simp add: block_sibling_spend_def withBlockId_def tip_store_coinbase)
  have 2: "?creator \<in> set (transactions block_sibling_spend)"
    by (simp add: block_sibling_spend_def withBlockId_def)
  have 3: "?spender \<in> set (transactions block_sibling_spend)"
    by (simp add: block_sibling_spend_def withBlockId_def)
  have 4: "?i \<in> set (inputs ?spender)" by simp
  have 5: "\<not> isCoinbaseInput (txId ?i)" by (simp add: isCoinbaseInput_def padTxId_def)
  have 6: "txId ?i = tx_id ?creator" by simp
  have 7: "0 \<le> index ?i" by simp
  have 8: "index ?i < int (length (outputs ?creator))" by simp
  have 9: "resolveInput store_coinbase ?i = None"
    by (simp add: resolveInput_def store_coinbase_def padTxId_def)
  from sibling_output_not_visible [OF 1 2 3 4 5 6 7 8 9] show ?thesis by blast
qed

text \<open>
  Claim C5 as it is worded does not hold. The same block submitted to the empty store,
  where the height expected is 1, is rejected with \<open>InvalidBlockHeight\<close>. And at height 2
  on the table that holds output 0 of \<^verbatim>\<open>tx1\<close>, a block whose first transaction is
  again called \<^verbatim>\<open>tx1\<close> and whose second transaction spends output 0 of \<^verbatim>\<open>tx1\<close> passes
  the three checks, the lookup finding the row of block 1; it is rejected by the unique
  index with a \<open>DatabaseError\<close> when the first transaction's output is inserted.
\<close>

theorem sibling_spend_other_error_counterexample:
  "fst (processBlock UTXORepository block_sibling_spend []) \<noteq> Inl (InvalidInputOutputSumError 400)
   \<and> fst (processBlock UTXORepository block_sibling_spend [])
        = Inl (InvalidBlockHeightError 400 (Some 0) (Some 2))
   \<and> fst (processBlock UTXORepository block_reused_id store_coinbase)
        \<noteq> Inl (InvalidInputOutputSumError 400)
   \<and> fst (processBlock UTXORepository block_reused_id store_coinbase) = Inl (DatabaseError 500)"
  by (simp add: processBlock_block_sibling_spend_empty processBlock_block_reused_id)

subsection \<open>C6: the order of the validation checks\<close>

text \<open>
  Claim C6, as the code has it. \<^verbatim>\<open>processBlock\<close> checks the height, then the conservation
  of value, then the block identifier. The height check requires the height to be the
  tip plus one and fails otherwise with \<open>InvalidBlockHeight\<close>, whose fields are the
  current tip (\<^verbatim>\<open>currentHeight\<close>) and the height submitted (\<^verbatim>\<open>height\<close>). The first check
  that fails gives the result, and the store is returned as it was: nothing is inserted
  and nothing is marked spent.
\<close>

theorem processBlock_validation_order:
  "processBlock UTXORepository block s =
     (if height block \<noteq> tip s + 1
      then (Inl (InvalidBlockHeightError 400 (Some (tip s)) (Some (height block))), s)
      else if validateInputOutputSum UTXORepository block s \<noteq> Inr ()
      then (Inl (InvalidInputOutputSumError 400), s)
      else if block_id block \<noteq> expectedHash block then (Inl (InvalidBlockIdError 400), s)
      else processTransactions UTXORepository (height block) (transactions block) s)"
  by (rule processBlock_UTXORepository_eq)

text \<open>
  On the empty store: a block at height 5 fails the height check, a block at height 1
  whose transaction has no input and an output of 100 fails the conservation check, and
  a block at height 1 with an empty identifier fails the identity check.
\<close>

theorem processBlock_validation_order_witness:
  "processBlock UTXORepository block_bad_height [] =
     (Inl (InvalidBlockHeightError 400 (Some 0) (Some 5)), [])
   \<and> processBlock UTXORepository block_sum_mismatch [] = (Inl (InvalidInputOutputSumError 400), [])
   \<and> processBlock UTXORepository block_bad_id [] = (Inl (InvalidBlockIdError 400), [])"
proof -
  have a: "processBlock UTXORepository block_bad_height [] =
     (Inl (InvalidBlockHeightError 400 (Some 0) (Some 5)), [])"
    using processBlock_validation_order [of block_bad_height "[]"]
    by (simp add: block_bad_height_def tip_def)
  have "validateInputOutputSum UTXORepository block_sum_mismatch [] \<noteq> Inr ()"
    by (simp add: block_sum_mismatch_def validateInputOutputSum_def hasCoinbaseInputs_def
        hasRegularInputs_def outputSum_def roundToDouble_exact)
  then have b: "processBlock UTXORepository block_sum_mismatch [] =
     (Inl (InvalidInputOutputSumError 400), [])"
    using processBlock_validation_order [of block_sum_mismatch "[]"]
    by (simp add: block_sum_mismatch_def tip_def)
  have "validateInputOutputSum UTXORepository block_bad_id [] = Inr ()"
    by (simp add: block_bad_id_def validateInputOutputSum_def validateRegularTransactions_def
        regularTransactions_def)
  moreover have "block_id block_bad_id \<noteq> expectedHash block_bad_id"
    using length_sha256hex [of "decimalString 1"]
    by (auto simp: block_bad_id_def expectedHash_def)
  ultimately have c: "processBlock UTXORepository block_bad_id [] = (Inl (InvalidBlockIdError 400), [])"
    using processBlock_validation_order [of block_bad_id "[]"]
    by (simp add: block_bad_id_def tip_def)
  from a b c show ?thesis by blast
qed

text \<open>
  Claim C6 as it is worded says that the error carries the expected height. At height 5
  on the empty store the expected height is 1; the error carries 0, the current tip, and
  5, the height submitted.
\<close>

theorem invalid_height_carries_current_counterexample:
  "height block_bad_height \<noteq> tip [] + 1
   \<and> fst (processBlock UTXORepository block_bad_height [])
       \<noteq> Inl (InvalidBlockHeightError 400 (Some (tip [] + 1)) (Some (height block_bad_height)))
   \<and> fst (processBlock UTXORepository block_bad_height [])
       = Inl (InvalidBlockHeightError 400 (Some (tip [])) (Some (height block_bad_height)))"
  by (simp add: block_bad_height_result) (simp add: block_bad_height_def tip_def)

subsection \<open>C7: rollbacks that are refused\<close>

text \<open>
  Claim C7. \<^verbatim>\<open>rollbackToHeight\<close> fails with \<open>InvalidRollbackHeight\<close> when the target is
  negative or above the tip. Otherwise, when no row has a height above the target, it
  fails with \<open>NoBlocksToRollback\<close> carrying the target and the tip; for a target between
  0 and the tip this is the case exactly when the target is the tip or the table is
  empty. In every store the service can reach, a rollback to the tip fails with
  \<open>NoBlocksToRollback\<close>. The store is left as it was in each case.
\<close>

theorem rollback_rejections:
  "(t < 0 \<or> tip s < t \<longrightarrow>
      (\<exists>c. rollbackToHeight UTXORepository t s = (Inl (InvalidRollbackHeightError 400 (Some t) c), s)))
   \<and> (0 \<le> t \<and> t \<le> tip s \<and> (\<forall>u\<in>set s. \<not> t < blockHeight u) \<longrightarrow>
        rollbackToHeight UTXORepository t s = (Inl (NoBlocksToRollbackError 400 t (tip s)), s))
   \<and> (0 \<le> t \<and> t \<le> tip s \<longrightarrow>
        ((\<forall>u\<in>set s. \<not> t < blockHeight u) \<longleftrightarrow> t = tip s \<or> s = []))
   \<and> (reachable s \<longrightarrow>
        rollbackToHeight UTXORepository (tip s) s
          = (Inl (NoBlocksToRollbackError 400 (tip s) (tip s)), s))"
proof -
  have a: "t < 0 \<or> tip s < t \<longrightarrow>
      (\<exists>c. rollbackToHeight UTXORepository t s = (Inl (InvalidRollbackHeightError 400 (Some t) c), s))"
    by (simp add: rollbackToHeight_UTXORepository_eq)
  have b: "0 \<le> t \<and> t \<le> tip s \<and> (\<forall>u\<in>set s. \<not> t < blockHeight u) \<longrightarrow>
        rollbackToHeight UTXORepository t s = (Inl (NoBlocksToRollbackError 400 t (tip s)), s)"
    by (simp add: rollbackToHeight_UTXORepository_eq filter_empty_conv)
  have c: "0 \<le> t \<and> t \<le> tip s \<longrightarrow>
        ((\<forall>u\<in>set s. \<not> t < blockHeight u) \<longleftrightarrow> t = tip s \<or> s = [])"
    using no_victims_iff [of t s] by blast
  have d: "reachable s \<longrightarrow>
        rollbackToHeight UTXORepository (tip s) s
          = (Inl (NoBlocksToRollbackError 400 (tip s) (tip s)), s)"
  proof
    assume "reachable s"
    then have "0 \<le> tip s" by (intro contiguous_tip_nonneg reachable_contiguous)
    moreover from this have "\<forall>u\<in>set s. \<not> tip s < blockHeight u"
      using no_victims_iff [of "tip s" s] by simp
    ultimately show "rollbackToHeight UTXORepository (tip s) s
          = (Inl (NoBlocksToRollbackError 400 (tip s) (tip s)), s)"
      by (simp add: rollbackToHeight_UTXORepository_eq filter_empty_conv)
  qed
  from a b c d show ?thesis by blast
qed

text \<open>
  On the table with heights 1 and 2: the targets -1 and 999 are invalid, the target 2 has
  nothing to roll back; on the empty table the target 0 has nothing to roll back.
\<close>

theorem rollback_rejections_witness:
  "rollbackToHeight UTXORepository (- 1) store_spend
     = (Inl (InvalidRollbackHeightError 400 (Some (- 1)) None), store_spend)
   \<and> rollbackToHeight UTXORepository 999 store_spend
     = (Inl (InvalidRollbackHeightError 400 (Some 999) (Some 2)), store_spend)
   \<and> rollbackToHeight UTXORepository 2 store_spend
     = (Inl (NoBlocksToRollbackError 400 2 2), store_spend)
   \<and> rollbackToHeight UTXORepository 0 [] = (Inl (NoBlocksToRollbackError 400 0 0), [])"
proof -
  from rollback_rejections [of "- 1" store_spend]
  obtain c where "rollbackToHeight UTXORepository (- 1) store_spend
     = (Inl (InvalidRollbackHeightError 400 (Some (- 1)) c), store_spend)" by auto
  moreover have "rollbackToHeight UTXORepository (- 1) store_spend
     = (Inl (InvalidRollbackHeightError 400 (Some (- 1)) None), store_spend)"
    by (simp add: rollbackToHeight_def validateRollbackHeight_def)
  ultimately have a: "rollbackToHeight UTXORepository (- 1) store_spend
     = (Inl (InvalidRollbackHeightError 400 (Some (- 1)) None), store_spend)" by simp
  from rollback_rejections [of 999 store_spend]
  obtain c where "rollbackToHeight UTXORepository 999 store_spend
     = (Inl (InvalidRollbackHeightError 400 (Some 999) c), store_spend)"
    by (auto simp: tip_store_spend)
  moreover have "rollbackToHeight UTXORepository 999 store_spend
     = (Inl (InvalidRollbackHeightError 400 (Some 999) (Some 2)), store_spend)"
    by (simp add: rollbackToHeight_def validateRollbackHeight_def tip_store_spend)
  ultimately have b: "rollbackToHeight UTXORepository 999 store_spend
     = (Inl (InvalidRollbackHeightError 400 (Some 999) (Some 2)), store_spend)" by simp
  from rollback_rejections [of 2 store_spend] reachable_store_spend
  have c: "rollbackToHeight UTXORepository 2 store_spend
     = (Inl (NoBlocksToRollbackError 400 2 2), store_spend)"
    by (simp add: tip_store_spend)
  have "tip [] = 0" by (simp add: tip_def)
  with rollback_rejections [of 0 "[]"]
  have d: "rollbackToHeight UTXORepository 0 [] = (Inl (NoBlocksToRollbackError 400 0 0), [])"
    by simp
  from a b c d show ?thesis by blast
qed

subsection \<open>C8: how store failures surface\<close>

text \<open>
  Claim C8, as the code has it, for every repository. When \<^verbatim>\<open>getMaxBlockHeight\<close> fails,
  \<^verbatim>\<open>processBlock\<close> returns \<open>InvalidBlockHeight\<close> and \<^verbatim>\<open>rollbackToHeight\<close> (for a target that
  is not negative) returns \<open>InvalidRollbackHeight\<close>; when \<^verbatim>\<open>findByTxIdsAndVouts\<close> fails
  during the conservation check, \<^verbatim>\<open>processBlock\<close> returns \<open>InvalidInputOutputSum\<close>; all
  three have status 400 and leave the store as it was. In the apply phase, when the
  writes of the block before some write have succeeded and that write returns an error,
  \<^verbatim>\<open>processBlock\<close> returns that error unchanged, with the store as the earlier writes have
  left it: a \<open>UTXONotFound\<close> of \<^verbatim>\<open>markAsSpent\<close> keeps its status 404, a \<open>DatabaseError\<close> its
  status 500. Conversely an error of the apply phase is the error that one of the block's
  writes returns.
\<close>

theorem store_failures_surface:
  "(getMaxBlockHeight r s = Inl e \<longrightarrow>
      processBlock r block s = (Inl (InvalidBlockHeightError 400 None None), s))
   \<and> (validateHeight r (height block) s = Inr ()
        \<and> validateCoinbaseTransactions (transactions block) = Inr ()
        \<and> regularTransactions (transactions block) \<noteq> []
        \<and> findByTxIdsAndVouts r (inputRefs (regularTransactions (transactions block))) s = Inl e \<longrightarrow>
      processBlock r block s = (Inl (InvalidInputOutputSumError 400), s))
   \<and> (0 \<le> targetHeight \<and> getMaxBlockHeight r s = Inl e \<longrightarrow>
      rollbackToHeight r targetHeight s = (Inl (InvalidRollbackHeightError 400 (Some targetHeight) None), s))
   \<and> (validateHeight r (height block) s = Inr ()
        \<and> validateInputOutputSum r block s = Inr ()
        \<and> validateBlockId block = Inr ()
        \<and> blockWrites block = ws @ w # ws'
        \<and> applyWrites r ws s = (Inr (), s1)
        \<and> runWrite r w s1 = Inl e \<longrightarrow>
      processBlock r block s = (Inl e, s1))
   \<and> (validateHeight r (height block) s = Inr ()
        \<and> validateInputOutputSum r block s = Inr ()
        \<and> validateBlockId block = Inr ()
        \<and> processBlock r block s = (Inl e, s') \<longrightarrow>
      (\<exists>w\<in>set (blockWrites block). runWrite r w s' = Inl e))
   \<and> getErrorStatusCode (InvalidBlockHeightError 400 None None) = 400
   \<and> getErrorStatusCode (InvalidInputOutputSumError 400) = 400
   \<and> getErrorStatusCode (InvalidRollbackHeightError 400 (Some targetHeight) None) = 400
   \<and> getErrorStatusCode (UTXONotFoundError 404) = 404
   \<and> getErrorStatusCode (DatabaseError 500) = 500"
proof -
  have a: "getMaxBlockHeight r s = Inl e \<longrightarrow>
      processBlock r block s = (Inl (InvalidBlockHeightError 400 None None), s)"
    by (simp add: processBlock_def validateHeight_def)
  have b: "validateHeight r (height block) s = Inr ()
        \<and> validateCoinbaseTransactions (transactions block) = Inr ()
        \<and> regularTransactions (transactions block) \<noteq> []
        \<and> findByTxIdsAndVouts r (inputRefs (regularTransactions (transactions block))) s = Inl e \<longrightarrow>
      processBlock r block s = (Inl (InvalidInputOutputSumError 400), s)"
    by (simp add: processBlock_def validateInputOutputSum_def validateRegularTransactions_def)
  have c: "0 \<le> targetHeight \<and> getMaxBlockHeight r s = Inl e \<longrightarrow>
      rollbackToHeight r targetHeight s = (Inl (InvalidRollbackHeightError 400 (Some targetHeight) None), s)"
    by (simp add: rollbackToHeight_def validateRollbackHeight_def)
  have p: "processBlock r block s = applyWrites r (blockWrites block) s"
    if "validateHeight r (height block) s = Inr ()" "validateInputOutputSum r block s = Inr ()"
      "validateBlockId block = Inr ()"
    using that by (simp add: processBlock_def processTransactions_applyWrites blockWrites_def)
  have f: "validateHeight r (height block) s = Inr ()
        \<and> validateInputOutputSum r block s = Inr ()
        \<and> validateBlockId block = Inr ()
        \<and> blockWrites block = ws @ w # ws'
        \<and> applyWrites r ws s = (Inr (), s1)
        \<and> runWrite r w s1 = Inl e \<longrightarrow>
      processBlock r block s = (Inl e, s1)"
  proof (intro impI, elim conjE)
    assume v: "validateHeight r (height block) s = Inr ()" "validateInputOutputSum r block s = Inr ()"
      "validateBlockId block = Inr ()"
      and w: "blockWrites block = ws @ w # ws'" "applyWrites r ws s = (Inr (), s1)"
        "runWrite r w s1 = Inl e"
    from w(2,3) have "applyWrites r (ws @ w # ws') s = (Inl e, s1)"
      by (rule applyWrites_first_error)
    with p [OF v] w(1) show "processBlock r block s = (Inl e, s1)" by simp
  qed
  have d: "validateHeight r (height block) s = Inr ()
        \<and> validateInputOutputSum r block s = Inr ()
        \<and> validateBlockId block = Inr ()
        \<and> processBlock r block s = (Inl e, s') \<longrightarrow>
      (\<exists>w\<in>set (blockWrites block). runWrite r w s' = Inl e)"
  proof (intro impI, elim conjE)
    assume v: "validateHeight r (height block) s = Inr ()" "validateInputOutputSum r block s = Inr ()"
      "validateBlockId block = Inr ()" and "processBlock r block s = (Inl e, s')"
    with p [OF v] have "applyWrites r (blockWrites block) s = (Inl e, s')" by simp
    then show "\<exists>w\<in>set (blockWrites block). runWrite r w s' = Inl e"
      by (rule applyWrites_error_origin)
  qed
  from a b c d f show ?thesis by simp
qed

text \<open>
  With a database that refuses every query, ingestion fails the height check and a
  rollback to 0 fails its validation; with one that refuses \<^verbatim>\<open>findByTxIdsAndVouts\<close> only,
  a block with a regular transaction fails the conservation check. In the block that
  spends the same output twice, the first spend mark and the first insertion succeed, the
  second spend mark returns \<open>UTXONotFound\<close>, and that is what \<^verbatim>\<open>processBlock\<close> returns, with
  the table the first two writes have left.
\<close>

theorem store_failures_surface_witness:
  "processBlock UTXORepository_down block_coinbase [] =
      (Inl (InvalidBlockHeightError 400 None None), [])
   \<and> processBlock (UTXORepository\<lparr>findByTxIdsAndVouts := \<lambda>refs s. Inl (DatabaseError 500)\<rparr>)
        block_double_spend store_coinbase = (Inl (InvalidInputOutputSumError 400), store_coinbase)
   \<and> rollbackToHeight UTXORepository_down 0 [] =
        (Inl (InvalidRollbackHeightError 400 (Some 0) None), [])
   \<and> runWrite UTXORepository (MarkAsSpent (padTxId ''tx1'') 0 (padTxId ''tx3'')) store_double_spend
        = Inl (UTXONotFoundError 404)
   \<and> processBlock UTXORepository block_double_spend store_coinbase
        = (Inl (UTXONotFoundError 404), store_double_spend)
   \<and> (\<exists>w\<in>set (blockWrites block_double_spend).
         runWrite UTXORepository w store_double_spend = Inl (UTXONotFoundError 404))"
proof -
  let ?r = "UTXORepository\<lparr>findByTxIdsAndVouts := \<lambda>refs s. Inl (DatabaseError 500)\<rparr>"
  let ?w = "MarkAsSpent (padTxId ''tx1'') 0 (padTxId ''tx3'')"
  let ?ws = "[MarkAsSpent (padTxId ''tx1'') 0 (padTxId ''tx2''),
              Insert \<lparr>txid = padTxId ''tx2'', vout = 0, address = ''addr2'', amount = 100,
                      scriptPubkey = [], blockHeight = 2, spent = False, spentTxid = None\<rparr>]"
  let ?ws' = "[Insert \<lparr>txid = padTxId ''tx3'', vout = 0, address = ''addr3'', amount = 100,
                       scriptPubkey = [], blockHeight = 2, spent = False, spentTxid = None\<rparr>]"
  have g: "getMaxBlockHeight UTXORepository_down [] = Inl (DatabaseError 500)"
    by (simp add: UTXORepository_down_def)
  from store_failures_surface [of UTXORepository_down "[]" "DatabaseError 500" block_coinbase 0] g
  have a: "processBlock UTXORepository_down block_coinbase [] =
      (Inl (InvalidBlockHeightError 400 None None), [])" by blast
  from store_failures_surface [of UTXORepository_down "[]" "DatabaseError 500" block_coinbase 0] g
  have c: "rollbackToHeight UTXORepository_down 0 [] =
        (Inl (InvalidRollbackHeightError 400 (Some 0) None), [])" by simp
  have b1: "validateHeight ?r (height block_double_spend) store_coinbase = Inr ()"
    by (simp add: block_double_spend_def store_coinbase_def eval_defs)
  have b2: "validateCoinbaseTransactions (transactions block_double_spend) = Inr ()"
    by (simp add: block_double_spend_def eval_defs)
  have b3: "regularTransactions (transactions block_double_spend) \<noteq> []"
    by (simp add: block_double_spend_def eval_defs)
  have b4: "findByTxIdsAndVouts ?r (inputRefs (regularTransactions (transactions block_double_spend)))
              store_coinbase = Inl (DatabaseError 500)"
    by simp
  from store_failures_surface [of ?r store_coinbase "DatabaseError 500" block_double_spend 0]
    b1 b2 b3 b4
  have b: "processBlock ?r block_double_spend store_coinbase =
             (Inl (InvalidInputOutputSumError 400), store_coinbase)" by blast
  have d1: "validateHeight UTXORepository (height block_double_spend) store_coinbase = Inr ()"
    by (simp add: block_double_spend_def store_coinbase_def eval_defs)
  have d2: "validateInputOutputSum UTXORepository block_double_spend store_coinbase = Inr ()"
    by (simp add: block_double_spend_def store_coinbase_def eval_defs)
  have d3: "validateBlockId block_double_spend = Inr ()"
    by (simp add: block_double_spend_def eval_defs)
  have f1: "blockWrites block_double_spend = ?ws @ ?w # ?ws'"
    by (simp add: blockWrites_def transactionWrites_def inputWrites_def block_double_spend_def
        withBlockId_def isCoinbaseInput_def padTxId_def)
  have f2: "applyWrites UTXORepository ?ws store_coinbase = (Inr (), store_double_spend)"
    by (simp add: store_coinbase_def store_double_spend_def eval_defs)
  have f3: "runWrite UTXORepository ?w store_double_spend = Inl (UTXONotFoundError 404)"
    by (simp add: store_double_spend_def eval_defs)
  from store_failures_surface [of UTXORepository store_coinbase "UTXONotFoundError 404"
      block_double_spend 0 ?ws ?w ?ws' store_double_spend store_double_spend]
    d1 d2 d3 f1 f2 f3
  have f: "processBlock UTXORepository block_double_spend store_coinbase
             = (Inl (UTXONotFoundError 404), store_double_spend)" by blast
  from store_failures_surface [of UTXORepository store_coinbase "UTXONotFoundError 404"
      block_double_spend 0 ?ws ?w ?ws' store_double_spend store_double_spend]
    d1 d2 d3 f
  have d: "\<exists>w\<in>set (blockWrites block_double_spend).
         runWrite UTXORepository w store_double_spend = Inl (UTXONotFoundError 404)" by blast
  from a b c d f f3 show ?thesis by blast
qed

text \<open>
  Claim C8 as it is worded does not hold. With a database that refuses every query the
  result of \<^verbatim>\<open>processBlock\<close> is \<open>InvalidBlockHeight\<close> with status 400, not a
  \<open>DatabaseError\<close>. And a block at height 2 whose two transactions both spend output 0 of
  the coinbase transaction of block 1 passes the three checks; its second spend mark
  finds the row already spent, and \<^verbatim>\<open>processBlock\<close> returns \<open>UTXONotFound\<close> with status
  404, the first transaction's writes staying in the store.
\<close>

theorem store_failure_not_DatabaseError_counterexample:
  "getMaxBlockHeight UTXORepository_down [] = Inl (DatabaseError 500)
   \<and> processBlock UTXORepository_down block_coinbase [] =
        (Inl (InvalidBlockHeightError 400 None None), [])
   \<and> getErrorStatusCode (InvalidBlockHeightError 400 None None) = 400
   \<and> processBlock UTXORepository block_coinbase [] = (Inr (), store_coinbase)
   \<and> processBlock UTXORepository block_double_spend store_coinbase =
        (Inl (UTXONotFoundError 404), store_double_spend)
   \<and> getErrorStatusCode (UTXONotFoundError 404) = 404"
  by (simp add: processBlock_UTXORepository_down processBlock_block_coinbase
      processBlock_block_double_spend)
     (simp add: UTXORepository_down_def)

subsection \<open>C9: height contiguity\<close>

text \<open>
  Claim C9. In every store reached from the empty one by calls of \<^verbatim>\<open>processBlock\<close> and
  \<^verbatim>\<open>rollbackToHeight\<close>, successful or not, the heights present are exactly those from 1
  to the tip, and no height is present exactly when the tip is 0.
\<close>

theorem height_contiguity:
  "reachable s \<Longrightarrow> blockHeight ` set s = {1..tip s} \<and> (blockHeight ` set s = {} \<longleftrightarrow> tip s = 0)"
proof -
  assume "reachable s"
  then have c: "contiguous s" by (rule reachable_contiguous)
  then have h: "blockHeight ` set s = {1..tip s}" by (simp add: contiguous_def)
  from contiguous_tip_nonneg [OF c] have "{1..tip s} = {} \<longleftrightarrow> tip s = 0" by auto
  with h show ?thesis by simp
qed

text \<open>
  The table left by two accepted blocks is reachable and holds the heights 1 and 2.
\<close>

theorem height_contiguity_witness:
  "reachable store_spend \<and> blockHeight ` set store_spend = {1..2}"
  using height_contiguity [OF reachable_store_spend] reachable_store_spend
  by (simp add: tip_store_spend)

subsection \<open>C10: blocks that write nothing\<close>

text \<open>
  Claim C10. A block whose transactions, if it has any, all have no input and no output
  is accepted when its height is the tip plus one and its identifier is the expected
  one. The store is left as it was, so the tip does not advance, and the height check
  after it accepts exactly the height of that block again.
\<close>

theorem empty_block_accepted:
  assumes "height block = tip s + 1"
    and "block_id block = expectedHash block"
    and "\<forall>tx\<in>set (transactions block). inputs tx = [] \<and> outputs tx = []"
  shows "processBlock UTXORepository block s = (Inr (), s)
         \<and> tip (snd (processBlock UTXORepository block s)) = tip s
         \<and> (validateHeight UTXORepository h' (snd (processBlock UTXORepository block s))
              = Inr () \<longleftrightarrow> h' = height block)"
proof -
  have v: "validateInputOutputSum UTXORepository block s = Inr ()"
    using assms(3)
    by (simp add: validateInputOutputSum_def validateCoinbaseTransactions_empty_txs
        validateRegularTransactions_def regularTransactions_empty_txs)
  have p: "processBlock UTXORepository block s = (Inr (), s)"
    using assms v by (simp add: processBlock_UTXORepository_eq processTransactions_empty_txs)
  show ?thesis
    using assms(1) by (simp add: p validateHeight_UTXORepository)
qed

text \<open>
  On the empty store, the block at height 1 with one transaction without inputs and
  outputs is accepted; the tip stays 0, height 1 is accepted again and height 2 is not.
\<close>

theorem empty_block_accepted_witness:
  "processBlock UTXORepository block_empty_tx [] = (Inr (), [])
   \<and> tip (snd (processBlock UTXORepository block_empty_tx [])) = 0
   \<and> validateHeight UTXORepository 1 (snd (processBlock UTXORepository block_empty_tx [])) = Inr ()
   \<and> validateHeight UTXORepository 2 (snd (processBlock UTXORepository block_empty_tx [])) \<noteq> Inr ()"
proof -
  have h: "height block_empty_tx = tip [] + 1"
    by (simp add: block_empty_tx_def withBlockId_def tip_def)
  have i: "block_id block_empty_tx = expectedHash block_empty_tx"
    by (simp add: block_empty_tx_def withBlockId_def expectedHash_def)
  have t: "\<forall>tx\<in>set (transactions block_empty_tx). inputs tx = [] \<and> outputs tx = []"
    by (simp add: block_empty_tx_def withBlockId_def)
  have e: "height block_empty_tx = 1"
    by (simp add: block_empty_tx_def withBlockId_def)
  note w1 = empty_block_accepted [OF h i t, of 1]
  note w2 = empty_block_accepted [OF h i t, of 2]
  from w1 have p: "processBlock UTXORepository block_empty_tx [] = (Inr (), [])" by blast
  from w1 have q: "tip (snd (processBlock UTXORepository block_empty_tx [])) = 0"
    by (simp add: tip_def)
  from w1 have r: "validateHeight UTXORepository 1 (snd (processBlock UTXORepository block_empty_tx [])) = Inr ()"
    unfolding e by blast
  from w2 have u: "validateHeight UTXORepository 2 (snd (processBlock UTXORepository block_empty_tx [])) \<noteq> Inr ()"
    unfolding e by auto
  from p q r u show ?thesis by blast
qed

end
